theory Spec2Isabelle
  imports Main "HOL-Library.Word" "HOL-Library.Signed_Division"
begin

section \<open>Machine integers\<close>

text \<open>
  The governor \<^verbatim>\<open>drivers/cpufreq/cpufreq_dynamic.c\<close> is built for a 32-bit ARM
  target (smdk4412): \<^verbatim>\<open>unsigned int\<close>, \<^verbatim>\<open>int\<close> and \<^verbatim>\<open>unsigned long\<close> are 32 bits
  wide, \<^verbatim>\<open>u64\<close>, \<^verbatim>\<open>int64_t\<close> and \<^verbatim>\<open>cputime64_t\<close> are 64 bits wide.  Unsigned
  values are words (arithmetic wraps, comparison is unsigned); a value the source holds
  in an \<^verbatim>\<open>int\<close> is read with \<open>sint\<close>.  Undefined behaviour of the C program (division
  or remainder by zero, an array index out of range) is the result \<open>None\<close>.
\<close>

type_synonym u32 = "32 word"
type_synonym u64 = "64 word"

section \<open>Run-queue average (lines 36--135)\<close>

record runqueue_data =
  nr_run_avg :: u32
  update_rate :: u32
  last_time :: u64
  total_time :: u64

text \<open>
  Modelled from the spec: the macro \<^verbatim>\<open>do_div(n, base)\<close> of \<^verbatim>\<open>asm/div64.h\<close> is not
  part of the governor's source file.  Section 4.1 of the specification gives the
  quotient \<open>(nr_run*100*dt + avg*total)/(total+dt)\<close>: \<open>n\<close> is replaced by the unsigned
  quotient \<open>n / base\<close>.  A zero divisor is undefined.
\<close>

definition do_div :: "u64 \<Rightarrow> u64 \<Rightarrow> u64 option" where
  "do_div n base = (if base = 0 then None else Some (n div base))"

text \<open>
  \<^verbatim>\<open>rq_work_fn\<close>: \<open>cur_time\<close> is \<^verbatim>\<open>ktime_to_ns(ktime_get())\<close> and \<open>running\<close> is the
  value of \<^verbatim>\<open>nr_running()\<close> (an \<^verbatim>\<open>unsigned long\<close>), both read from the kernel.
  Re-arming the delayed work does not change the data.
\<close>

definition rq_work_fn :: "u64 \<Rightarrow> u32 \<Rightarrow> runqueue_data \<Rightarrow> runqueue_data option" where
  "rq_work_fn cur_time running rq =
    (let last = (if last_time rq = 0 then cur_time else last_time rq);
         total = (if nr_run_avg rq = 0 then 0 else total_time rq);
         nr_run = (ucast (running * 100) :: u64)
     in case do_div (cur_time - last) (1000 * 1000) of
          None \<Rightarrow> None
        | Some time_diff \<Rightarrow>
            (case (if time_diff \<noteq> 0 \<and> total \<noteq> 0
                   then do_div (nr_run * time_diff + ucast (nr_run_avg rq) * total)
                               (total + time_diff)
                   else Some nr_run) of
               None \<Rightarrow> None
             | Some nr_run' \<Rightarrow>
                 Some (rq\<lparr>nr_run_avg := ucast nr_run',
                          total_time := total + time_diff,
                          last_time := cur_time\<rparr>)))"

text \<open>\<^verbatim>\<open>get_nr_run_avg\<close>: the value returned and the data afterwards.\<close>

definition get_nr_run_avg :: "runqueue_data \<Rightarrow> u32 \<times> runqueue_data" where
  "get_nr_run_avg rq = (nr_run_avg rq, rq\<lparr>nr_run_avg := 0\<rparr>)"

text \<open>\<^verbatim>\<open>start_rq_work\<close>: the three accumulators are cleared.\<close>

definition start_rq_work :: "runqueue_data \<Rightarrow> runqueue_data" where
  "start_rq_work rq = rq\<lparr>nr_run_avg := 0, last_time := 0, total_time := 0\<rparr>"

section \<open>Tunables, policy and per-CPU data (lines 143--417)\<close>

definition MAX_HOTPLUG_RATE :: u32 where
  "MAX_HOTPLUG_RATE = 40"

definition IGNORE_NICE_STANDBY :: u32 where
  "IGNORE_NICE_STANDBY = 1"

definition IGNORE_NICE_ALWAYS :: u32 where
  "IGNORE_NICE_ALWAYS = 2"

text \<open>
  \<^verbatim>\<open>struct dbs_tuners\<close>.  The five fields the source names with a leading underscore
  (\<^verbatim>\<open>_suspend_max_freq_soft\<close>, ...) carry the prefix \<open>i_\<close> here.  The fields
  \<^verbatim>\<open>cpu_up_freq\<close>, \<^verbatim>\<open>cpu_down_freq\<close>, \<^verbatim>\<open>up_nr_cpus\<close>, \<^verbatim>\<open>dvfs_debug\<close>, \<^verbatim>\<open>max_freq\<close>
  and \<^verbatim>\<open>min_freq\<close> are read by none of the functions below (\<^verbatim>\<open>dvfs_debug\<close> only
  selects printing) and are left out.
\<close>

record dbs_tuners =
  input_boost_freq :: u32
  input_boost_us :: u32
  power_optimal_freq :: u32
  high_freq_sampling_up_factor :: u32
  up_threshold :: u32
  down_differential :: u32
  ignore_nice :: u32
  io_is_busy :: u32
  sampling_rate :: u32
  sampling_down_factor :: u32
  sampling_down_factor_relax_khz :: u32
  max_non_oc_freq :: u32
  oc_freq_boost_ms :: u32
  standby_delay_factor :: u32
  standby_threshold_freq :: u32
  standby_sampling_rate :: u32
  standby_sampling_up_factor :: u32
  suspend_sampling_rate :: u32
  suspend_sampling_up_factor :: u32
  suspend_max_freq :: u32
  cpu_up_rate :: u32
  cpu_down_rate :: u32
  max_cpu_lock :: u32
  min_cpu_lock :: u32
  boost_mincpus :: u32
  i_suspend_max_freq_soft :: u32
  i_suspend_max_freq_hard :: u32
  i_standby_max_freq_soft :: u32
  i_oc_limit :: u32
  i_standby_threshold_freq :: u32

text \<open>
  The initialiser of \<^verbatim>\<open>dbs_tuners_ins\<close> (lines 330--364); \<open>hz\<close> is the kernel's
  \<^verbatim>\<open>HZ\<close>.  Fields the initialiser does not name are zero.
\<close>

definition dbs_tuners_ins :: "u32 \<Rightarrow> dbs_tuners" where
  "dbs_tuners_ins hz =
    \<lparr>input_boost_freq = 200000, input_boost_us = 0 * 1000,
     power_optimal_freq = 800000, high_freq_sampling_up_factor = 2,
     up_threshold = 85, down_differential = 5, ignore_nice = 1,
     io_is_busy = 10 * 128 div 100,
     sampling_rate = 3 * hz div 100, sampling_down_factor = 1,
     sampling_down_factor_relax_khz = 400000,
     max_non_oc_freq = 900000, oc_freq_boost_ms = 2000,
     standby_delay_factor = 1, standby_threshold_freq = 100000,
     standby_sampling_rate = 2 * hz div 100, standby_sampling_up_factor = 5,
     suspend_sampling_rate = 3 * hz div 100, suspend_sampling_up_factor = 7,
     suspend_max_freq = 600000,
     cpu_up_rate = 10, cpu_down_rate = 20,
     max_cpu_lock = 0, min_cpu_lock = 4, boost_mincpus = 0,
     i_suspend_max_freq_soft = 0, i_suspend_max_freq_hard = 0,
     i_standby_max_freq_soft = 0, i_oc_limit = 0,
     i_standby_threshold_freq = 0\<rparr>"

text \<open>
  \<^verbatim>\<open>struct cpufreq_policy\<close>, the three fields and the CPU mask the governor reads.
  The source's field names \<^verbatim>\<open>min\<close> and \<^verbatim>\<open>max\<close> are \<open>pol_min\<close> and \<open>pol_max\<close>.
\<close>

record cpufreq_policy =
  pol_min :: u32
  pol_max :: u32
  cur :: u32
  cpus :: "nat list"

text \<open>
  \<^verbatim>\<open>struct cpu_dbs_info_s\<close>.  The pointer \<^verbatim>\<open>cur_policy\<close> is modelled by the policy it
  points to: no function below writes through it.  The frequency table behind
  \<^verbatim>\<open>freq_table\<close> is reached only through \<^verbatim>\<open>cpufreq_frequency_table_target\<close>, see
  \<open>table_target\<close> below.  The work items and the mutex carry no data.
\<close>

record cpu_dbs_info_s =
  prev_cpu_idle :: u64
  prev_cpu_wall :: u64
  prev_cpu_nice :: u64
  prev_cpu_io :: u64
  cur_policy :: cpufreq_policy
  freq_lo :: u32
  down_skip :: u32
  requested_freq :: u32
  sampling_up_counter :: u32
  standby_counter :: u32
  down_threshold :: u32
  oc_boost_cycles :: u32
  enable :: bool

text \<open>\<^verbatim>\<open>struct cpu_usage\<close> and \<^verbatim>\<open>struct cpu_usage_history\<close> (lines 400--409).\<close>

record cpu_usage =
  freq :: u32
  load :: "nat \<Rightarrow> u32"
  rq_avg :: u32

record cpu_usage_history =
  usage :: "nat \<Rightarrow> cpu_usage"
  num_hist :: u32

datatype work = Up_work nat | Down_work nat

datatype relation = CPUFREQ_RELATION_L | CPUFREQ_RELATION_H

text \<open>
  The governor's global variables: the tunables, the flags \<^verbatim>\<open>suspend\<close> and
  \<^verbatim>\<open>standby\<close>, \<^verbatim>\<open>delay\<close>, \<^verbatim>\<open>last_input_time\<close>, the hotplug history, the run-queue
  data, the two threshold tables \<^verbatim>\<open>_hotplug_rq\<close> and \<^verbatim>\<open>_hotplug_freq\<close> (rows indexed
  by the number of online CPUs minus one, each row a pair (down, up) of \<^verbatim>\<open>int\<close>) and
  the per-CPU array \<^verbatim>\<open>cs_cpu_dbs_info\<close>.  Two logs record what a function hands to
  the kernel: the work items queued on \<^verbatim>\<open>dbs_wq\<close> and the calls of
  \<^verbatim>\<open>__cpufreq_driver_target\<close> (frequency and relation), both in order.
\<close>

record gov =
  tuners :: dbs_tuners
  suspend :: bool
  standby :: bool
  delay :: u32
  last_input_time :: u64
  hotplug_history :: cpu_usage_history
  rq_data :: runqueue_data
  hotplug_rq :: "(u32 \<times> u32) list"
  hotplug_freq :: "(u32 \<times> u32) list"
  cs_cpu_dbs_info :: "nat \<Rightarrow> cpu_dbs_info_s"
  queued :: "work list"
  driver_target :: "(u32 \<times> relation) list"

text \<open>The default tables (lines 191--220; the three configurations with four rows agree).\<close>

definition default_hotplug_rq :: "(u32 \<times> u32) list" where
  "default_hotplug_rq = [(0, 100), (100, 200), (200, 300), (300, 0)]"

definition default_hotplug_freq :: "(u32 \<times> u32) list" where
  "default_hotplug_freq = [(0, 500000), (200000, 500000), (200000, 500000), (200000, 0)]"

section \<open>Derived thresholds (lines 454--559)\<close>

text \<open>
  \<^verbatim>\<open>recalculate_down_threshold\<close>.  The division by \<^verbatim>\<open>cur_policy->cur\<close> is undefined
  when that frequency is zero.
\<close>

definition recalculate_down_threshold :: "dbs_tuners \<Rightarrow> cpu_dbs_info_s \<Rightarrow> cpu_dbs_info_s option" where
  "recalculate_down_threshold t info =
    (if cur (cur_policy info) = 0 then None
     else
       let temp = (up_threshold t - down_differential t) * freq_lo info div cur (cur_policy info);
           temp' = (if temp < 10 \<or> temp > up_threshold t - down_differential t
                    then (up_threshold t - down_differential t) div 2 else temp)
       in Some (info\<lparr>down_threshold := temp'\<rparr>))"

text \<open>
  \<^verbatim>\<open>recalculate_down_threshold_all\<close>: \<open>online\<close> lists the CPUs of
  \<^verbatim>\<open>for_each_online_cpu\<close>.
\<close>

fun recalculate_down_threshold_all :: "nat list \<Rightarrow> gov \<Rightarrow> gov option" where
  "recalculate_down_threshold_all [] g = Some g"
| "recalculate_down_threshold_all (cpu # rest) g =
    (case recalculate_down_threshold (tuners g) (cs_cpu_dbs_info g cpu) of
       None \<Rightarrow> None
     | Some info \<Rightarrow>
         recalculate_down_threshold_all rest
           (g\<lparr>cs_cpu_dbs_info := (cs_cpu_dbs_info g)(cpu := info)\<rparr>))"

text \<open>
  \<^verbatim>\<open>cpufreq_frequency_table_target\<close> and the frequency table are kernel code outside
  the governor's source file.  The governor ignores the helper's return value and
  reads \<^verbatim>\<open>freq_table[idx].frequency\<close>; that frequency, for the policy and table at
  hand, is the parameter \<open>table_target relation target\<close> of the functions that call
  the helper.
\<close>

type_synonym target_fn = "relation \<Rightarrow> u32 \<Rightarrow> u32"

text \<open>
  \<^verbatim>\<open>dbs_cpufreq_notifier\<close> for a transition of CPU \<open>cpu\<close> to the frequency \<open>new\<close>;
  the result \<open>True\<close> is \<^verbatim>\<open>NOTIFY_OK\<close>, \<open>False\<close> is \<^verbatim>\<open>NOTIFY_DONE\<close>.
\<close>

definition dbs_cpufreq_notifier :: "target_fn \<Rightarrow> nat \<Rightarrow> u32 \<Rightarrow> gov \<Rightarrow> (bool \<times> gov) option" where
  "dbs_cpufreq_notifier tt cpu new g =
    (let this = cs_cpu_dbs_info g cpu in
     if \<not> enable this then Some (False, g)
     else
       let policy = cur_policy this;
           this1 = (if requested_freq this > pol_max policy \<or> requested_freq this < pol_min policy
                    then this\<lparr>requested_freq := new\<rparr> else this)
       in if new > pol_min policy
          then (case recalculate_down_threshold (tuners g)
                       (this1\<lparr>freq_lo := tt CPUFREQ_RELATION_H (new - 1)\<rparr>) of
                  None \<Rightarrow> None
                | Some this2 \<Rightarrow>
                    Some (True, g\<lparr>cs_cpu_dbs_info := (cs_cpu_dbs_info g)(cpu := this2)\<rparr>))
          else Some (True, g\<lparr>cs_cpu_dbs_info :=
                 (cs_cpu_dbs_info g)(cpu := this1\<lparr>freq_lo := pol_min policy\<rparr>)\<rparr>))"

text \<open>
  \<^verbatim>\<open>recalculate_freq_limits\<close> for the policy of CPU 0; \<open>present\<close> is
  \<^verbatim>\<open>num_present_cpus()\<close>.
\<close>

definition recalculate_freq_limits :: "u32 \<Rightarrow> cpufreq_policy \<Rightarrow> dbs_tuners \<Rightarrow> dbs_tuners" where
  "recalculate_freq_limits present policy t =
    (let hard = (if max_non_oc_freq t \<noteq> 0 \<and>
                    (oc_freq_boost_ms t = 0 \<or> (power_optimal_freq t = 0 \<and> suspend_max_freq t = 0))
                 then max_non_oc_freq t
                 else if power_optimal_freq t \<noteq> 0 then power_optimal_freq t
                 else if suspend_max_freq t \<noteq> 0 then suspend_max_freq t
                 else pol_max policy);
         soft = (if suspend_max_freq t \<noteq> 0 then suspend_max_freq t
                 else if power_optimal_freq t \<noteq> 0 then power_optimal_freq t
                 else pol_max policy);
         sby = (if max_non_oc_freq t \<noteq> 0 \<and>
                   ((max_non_oc_freq t < pol_max policy \<and> oc_freq_boost_ms t = 0)
                    \<or> power_optimal_freq t = 0)
                then max_non_oc_freq t
                else if power_optimal_freq t \<noteq> 0 then power_optimal_freq t
                else pol_max policy);
         oc = (if pol_max policy > max_non_oc_freq t \<and> oc_freq_boost_ms t \<noteq> 0
               then oc_freq_boost_ms t * present * (pol_max policy - max_non_oc_freq t) div 1000
               else 0)
     in t\<lparr>i_suspend_max_freq_hard := (if hard > pol_max policy then pol_max policy else hard),
          i_suspend_max_freq_soft := (if soft > pol_max policy then pol_max policy else soft),
          i_standby_max_freq_soft := (if sby > pol_max policy then pol_max policy else sby),
          i_oc_limit := oc,
          i_standby_threshold_freq := pol_min policy + standby_threshold_freq t\<rparr>)"

section \<open>The two threshold setters (lines 632--698)\<close>

datatype errno = EINVAL

text \<open>
  \<^verbatim>\<open>__store_int\<close> expanded for \<^verbatim>\<open>up_threshold\<close> and \<^verbatim>\<open>down_differential\<close>.  \<open>input\<close>
  is what \<^verbatim>\<open>sscanf(buf, "%u", &input)\<close> delivers: \<open>None\<close> when it converts nothing
  (\<^verbatim>\<open>ret != 1\<close>).  The result is \<^verbatim>\<open>-EINVAL\<close> or \<^verbatim>\<open>count\<close>, with the globals
  afterwards; the outer \<open>None\<close> is the undefined division inside
  \<^verbatim>\<open>recalculate_down_threshold_all\<close>.
\<close>

definition store_up_threshold :: "nat list \<Rightarrow> u32 option \<Rightarrow> nat \<Rightarrow> gov \<Rightarrow> ((errno + nat) \<times> gov) option" where
  "store_up_threshold online inp count g =
    (case inp of
       None \<Rightarrow> Some (Inl EINVAL, g)
     | Some input \<Rightarrow>
         if \<not> (down_differential (tuners g) < input \<and> input \<le> 100)
         then Some (Inl EINVAL, g)
         else (case recalculate_down_threshold_all online
                      (g\<lparr>tuners := (tuners g)\<lparr>up_threshold := input\<rparr>\<rparr>) of
                 None \<Rightarrow> None
               | Some g' \<Rightarrow> Some (Inr count, g')))"

definition store_down_differential :: "nat list \<Rightarrow> u32 option \<Rightarrow> nat \<Rightarrow> gov \<Rightarrow> ((errno + nat) \<times> gov) option" where
  "store_down_differential online inp count g =
    (case inp of
       None \<Rightarrow> Some (Inl EINVAL, g)
     | Some input \<Rightarrow>
         if \<not> (0 < input \<and> input < up_threshold (tuners g))
         then Some (Inl EINVAL, g)
         else (case recalculate_down_threshold_all online
                      (g\<lparr>tuners := (tuners g)\<lparr>down_differential := input\<rparr>\<rparr>) of
                 None \<Rightarrow> None
               | Some g' \<Rightarrow> Some (Inr count, g')))"

text \<open>
  A call of one of the two setters, and a sequence of calls from user space (every
  call with the same \<open>count\<close>); the sequence stops where a call is undefined.
\<close>

datatype store = Store_up_threshold "u32 option" | Store_down_differential "u32 option"

definition store_one :: "nat list \<Rightarrow> nat \<Rightarrow> store \<Rightarrow> gov \<Rightarrow> ((errno + nat) \<times> gov) option" where
  "store_one online count st g =
    (case st of
       Store_up_threshold inp \<Rightarrow> store_up_threshold online inp count g
     | Store_down_differential inp \<Rightarrow> store_down_differential online inp count g)"

fun run_stores :: "nat list \<Rightarrow> nat \<Rightarrow> store list \<Rightarrow> gov \<Rightarrow> gov option" where
  "run_stores online count [] g = Some g"
| "run_stores online count (st # rest) g =
    (case store_one online count st g of
       None \<Rightarrow> None
     | Some (r, g') \<Rightarrow> run_stores online count rest g')"

text \<open>The configuration invariant of the two thresholds.\<close>

definition threshold_invariant :: "dbs_tuners \<Rightarrow> bool" where
  "threshold_invariant t \<longleftrightarrow> down_differential t < up_threshold t \<and> up_threshold t \<le> 100"

text \<open>
  Every online CPU has a policy with a current frequency (\<^verbatim>\<open>CPUFREQ_GOV_START\<close>
  refuses a policy without one).
\<close>

definition policies_running :: "nat list \<Rightarrow> gov \<Rightarrow> bool" where
  "policies_running online g \<longleftrightarrow>
     list_all (\<lambda>cpu. cur (cur_policy (cs_cpu_dbs_info g cpu)) \<noteq> 0) online"

section \<open>What a tick reads from the kernel\<close>

text \<open>
  The accounting of one CPU as the kernel reports it during a tick:
  \<^verbatim>\<open>get_cpu_idle_time_us(cpu, wall)\<close> (its result and the wall time it writes),
  \<^verbatim>\<open>get_cpu_iowait_time_us(cpu, wall)\<close> (likewise), the \<^verbatim>\<open>kcpustat\<close> counters and
  \<^verbatim>\<open>get_jiffies_64()\<close>.
\<close>

record cpu_times =
  idle_time_us :: u64
  idle_wall_us :: u64
  iowait_time_us :: u64
  iowait_wall_us :: u64
  cputime_user :: u64
  cputime_system :: u64
  cputime_irq :: u64
  cputime_softirq :: u64
  cputime_steal :: u64
  cputime_nice :: u64
  jiffies_64 :: u64

text \<open>
  The kernel as one tick sees it: the three readings of
  \<^verbatim>\<open>ktime_to_us(ktime_get())\<close> that \<^verbatim>\<open>is_boosted\<close> takes (at the entry of
  \<^verbatim>\<open>dbs_check_cpu\<close>, in \<^verbatim>\<open>check_up\<close> and in \<^verbatim>\<open>check_down\<close>), the accounting of each
  CPU, the conversion \<^verbatim>\<open>jiffies_to_usecs\<close> (it depends on \<^verbatim>\<open>HZ\<close>),
  \<^verbatim>\<open>num_online_cpus()\<close>, \<^verbatim>\<open>num_possible_cpus()\<close> and the table lookup.  The
  conversions \<^verbatim>\<open>jiffies64_to_cputime64\<close> and \<^verbatim>\<open>cputime64_to_jiffies64\<close> are the
  identity.
\<close>

record kernel =
  ktime_us :: u64
  ktime_us_up :: u64
  ktime_us_down :: u64
  times :: "nat \<Rightarrow> cpu_times"
  jiffies_to_usecs :: "u32 \<Rightarrow> u32"
  num_online_cpus :: u32
  num_possible_cpus :: u32
  table_target :: target_fn

definition get_cpu_idle_time_jiffy :: "kernel \<Rightarrow> nat \<Rightarrow> u64 \<times> u64" where
  "get_cpu_idle_time_jiffy k cpu =
    (let c = times k cpu;
         cur_wall_time = jiffies_64 c;
         busy_time = cputime_user c + cputime_system c + cputime_irq c + cputime_softirq c
                     + cputime_steal c + cputime_nice c;
         idle_time = cur_wall_time - busy_time
     in (ucast (jiffies_to_usecs k (ucast idle_time)),
         ucast (jiffies_to_usecs k (ucast cur_wall_time))))"

text \<open>
  \<^verbatim>\<open>get_cpu_idle_time\<close>: the result, \<^verbatim>\<open>*wall\<close> and \<^verbatim>\<open>*iowait\<close> afterwards; \<open>io0\<close> is
  \<^verbatim>\<open>*iowait\<close> before the call.
\<close>

definition get_cpu_idle_time :: "kernel \<Rightarrow> dbs_tuners \<Rightarrow> nat \<Rightarrow> u64 \<Rightarrow> u64 \<times> u64 \<times> u64" where
  "get_cpu_idle_time k t cpu io0 =
    (let c = times k cpu in
     if idle_time_us c = - 1
     then (fst (get_cpu_idle_time_jiffy k cpu), snd (get_cpu_idle_time_jiffy k cpu), io0)
     else if io_is_busy t \<noteq> 1 then (idle_time_us c, iowait_wall_us c, iowait_time_us c)
     else (idle_time_us c, idle_wall_us c, io0))"

section \<open>Boost and mode (lines 1051--1061)\<close>

definition is_boosted :: "u64 \<Rightarrow> gov \<Rightarrow> bool" where
  "is_boosted now g \<longleftrightarrow>
     input_boost_freq (tuners g) > 0 \<and>
     now < last_input_time g + ucast (input_boost_us (tuners g))"

definition is_active :: "gov \<Rightarrow> bool" where
  "is_active g \<longleftrightarrow> \<not> (suspend g \<or> standby g)"

section \<open>Hotplug checks (lines 1132--1244)\<close>

definition INT_MAX :: int where
  "INT_MAX = 2147483647"

text \<open>
  The loop of \<^verbatim>\<open>check_up\<close>: \<open>i\<close> runs down from \<^verbatim>\<open>num_hist - 1\<close> to \<open>lo\<close> and the two
  minima are taken over \<^verbatim>\<open>int\<close> values.  An index outside \<^verbatim>\<open>usage[MAX_HOTPLUG_RATE]\<close>
  is undefined.
\<close>

function check_up_loop :: "cpu_usage_history \<Rightarrow> int \<Rightarrow> int \<Rightarrow> int \<Rightarrow> int \<Rightarrow> (int \<times> int) option" where
  "check_up_loop h i lo min_freq min_rq_avg =
    (if i \<ge> lo
     then (if i < 0 \<or> i \<ge> uint MAX_HOTPLUG_RATE then None
           else check_up_loop h (i - 1) lo
                  (min min_freq (sint (freq (usage h (nat i)))))
                  (min min_rq_avg (sint (rq_avg (usage h (nat i))))))
     else Some (min_freq, min_rq_avg))"
  by pat_completeness auto
termination
  by (relation "measure (\<lambda>(h, i, lo, mf, mr). nat (i - lo + 1))") auto

declare check_up_loop.simps [simp del]

function check_down_loop :: "cpu_usage_history \<Rightarrow> int \<Rightarrow> int \<Rightarrow> int \<Rightarrow> int \<Rightarrow> (int \<times> int) option" where
  "check_down_loop h i lo max_freq max_rq_avg =
    (if i \<ge> lo
     then (if i < 0 \<or> i \<ge> uint MAX_HOTPLUG_RATE then None
           else check_down_loop h (i - 1) lo
                  (max max_freq (sint (freq (usage h (nat i)))))
                  (max max_rq_avg (sint (rq_avg (usage h (nat i))))))
     else Some (max_freq, max_rq_avg))"
  by pat_completeness auto
termination
  by (relation "measure (\<lambda>(h, i, lo, mf, mr). nat (i - lo + 1))") auto

declare check_down_loop.simps [simp del]

text \<open>
  A row of \<^verbatim>\<open>_hotplug_freq\<close> or \<^verbatim>\<open>_hotplug_rq\<close>; a row index outside the table is
  undefined.
\<close>

definition table_row :: "(u32 \<times> u32) list \<Rightarrow> int \<Rightarrow> (u32 \<times> u32) option" where
  "table_row tab i = (if 0 \<le> i \<and> i < int (length tab) then Some (tab ! nat i) else None)"

text \<open>
  \<^verbatim>\<open>check_up\<close>: the result (nonzero or zero) and the globals afterwards.  A
  comparison of the \<^verbatim>\<open>int\<close> \<open>online\<close> with an \<^verbatim>\<open>unsigned int\<close> is unsigned, hence on
  words.
\<close>

definition check_up :: "kernel \<Rightarrow> gov \<Rightarrow> (bool \<times> gov) option" where
  "check_up k g =
    (let h = hotplug_history g; t = tuners g;
         n = sint (num_hist h);
         up_rate = sint (cpu_up_rate t);
         online = num_online_cpus k
     in case (table_row (hotplug_freq g) (sint online - 1), table_row (hotplug_rq g) (sint online - 1)) of
          (Some fr, Some rr) \<Rightarrow>
            (let up_freq = sint (snd fr); up_rq = sint (snd rr) in
             if online = num_possible_cpus k then Some (False, g)
             else if max_cpu_lock t \<noteq> 0 \<and> online \<ge> max_cpu_lock t then Some (False, g)
             else if min_cpu_lock t \<noteq> 0 \<and> online < min_cpu_lock t then Some (True, g)
             else if is_boosted (ktime_us_up k) g \<and> boost_mincpus t \<noteq> 0 \<and> online < boost_mincpus t
                  then Some (True, g)
             else if n = 0 then Some (False, g)
             else if up_rate = 0 then None
             else if n smod up_rate \<noteq> 0 then Some (False, g)
             else (case check_up_loop h (n - 1) (n - up_rate) INT_MAX INT_MAX of
                     None \<Rightarrow> None
                   | Some (min_freq, min_rq_avg) \<Rightarrow>
                       if min_freq \<ge> up_freq \<and> min_rq_avg > up_rq
                       then Some (True, g\<lparr>hotplug_history := h\<lparr>num_hist := 0\<rparr>\<rparr>)
                       else Some (False, g)))
        | _ \<Rightarrow> None)"

definition check_down :: "kernel \<Rightarrow> gov \<Rightarrow> (bool \<times> gov) option" where
  "check_down k g =
    (let h = hotplug_history g; t = tuners g;
         n = sint (num_hist h);
         down_rate = sint (cpu_down_rate t);
         online = num_online_cpus k
     in case (table_row (hotplug_freq g) (sint online - 1), table_row (hotplug_rq g) (sint online - 1)) of
          (Some fr, Some rr) \<Rightarrow>
            (let down_freq = sint (fst fr); down_rq = sint (fst rr) in
             if is_boosted (ktime_us_down k) g \<and> boost_mincpus t \<noteq> 0 \<and> online \<le> boost_mincpus t
             then Some (False, g)
             else if online = 1 then Some (False, g)
             else if max_cpu_lock t \<noteq> 0 \<and> online > max_cpu_lock t then Some (True, g)
             else if min_cpu_lock t \<noteq> 0 \<and> online \<le> min_cpu_lock t then Some (False, g)
             else if n = 0 then Some (False, g)
             else if down_rate = 0 then None
             else if n smod down_rate \<noteq> 0 then Some (False, g)
             else (case check_down_loop h (n - 1) (n - down_rate) 0 0 of
                     None \<Rightarrow> None
                   | Some (max_freq, max_rq_avg) \<Rightarrow>
                       if max_freq \<le> down_freq \<and> max_rq_avg \<le> down_rq
                       then Some (True, g\<lparr>hotplug_history := h\<lparr>num_hist := 0\<rparr>\<rparr>)
                       else Some (False, g)))
        | _ \<Rightarrow> None)"

section \<open>The decision tick \<^verbatim>\<open>dbs_check_cpu\<close> (lines 1246--1541)\<close>

text \<open>
  The tick of CPU \<open>c\<close> works on \<^verbatim>\<open>this_dbs_info = &per_cpu(cs_cpu_dbs_info, c)\<close>.  Its
  body is cut at the source's own comments into the definitions below;
  \<open>dbs_check_cpu\<close> at the end puts them together in the source's order.
\<close>

definition upd_this :: "nat \<Rightarrow> (cpu_dbs_info_s \<Rightarrow> cpu_dbs_info_s) \<Rightarrow> gov \<Rightarrow> gov" where
  "upd_this c f g = g\<lparr>cs_cpu_dbs_info := (cs_cpu_dbs_info g)(c := f (cs_cpu_dbs_info g c))\<rparr>"

text \<open>\<^verbatim>\<open>__cpufreq_driver_target(policy, target, relation)\<close>: the call is logged.\<close>

definition cpufreq_driver_target :: "u32 \<Rightarrow> relation \<Rightarrow> gov \<Rightarrow> gov" where
  "cpufreq_driver_target target rel g = g\<lparr>driver_target := driver_target g @ [(target, rel)]\<rparr>"

definition queue_work_on :: "work \<Rightarrow> gov \<Rightarrow> gov" where
  "queue_work_on w g = g\<lparr>queued := queued g @ [w]\<rparr>"

text \<open>
  Lines 1264--1275: the overflow guard and the new history record.  The result is
  the index written (the local \<^verbatim>\<open>num_hist\<close>) and the globals.
\<close>

definition history_push :: "cpufreq_policy \<Rightarrow> gov \<Rightarrow> nat \<times> gov" where
  "history_push policy g =
    (let h = hotplug_history g;
         h0 = (if num_hist h \<ge> MAX_HOTPLUG_RATE then h\<lparr>num_hist := 0\<rparr> else h);
         i = unat (num_hist h0);
         r = get_nr_run_avg (rq_data g);
         h1 = h0\<lparr>usage := (usage h0)(i := (usage h0 i)\<lparr>freq := cur policy, rq_avg := fst r\<rparr>)\<rparr>
     in (i, g\<lparr>hotplug_history := h1\<lparr>num_hist := num_hist h1 + 1\<rparr>, rq_data := snd r\<rparr>))"

text \<open>Lines 1277--1280.\<close>

definition oc_freq_delta_of :: "bool \<Rightarrow> cpufreq_policy \<Rightarrow> dbs_tuners \<Rightarrow> cpu_dbs_info_s \<Rightarrow> u32" where
  "oc_freq_delta_of active policy t this =
    (if active \<and> cur policy > max_non_oc_freq t \<and> oc_boost_cycles this \<noteq> 0
     then (cur policy - max_non_oc_freq t) div 1000 else 0)"

text \<open>
  Lines 1357--1360: the debit of the overclock credit by \<open>oc_workload\<close>.
\<close>

definition oc_debit :: "u32 \<Rightarrow> u32 \<Rightarrow> u32" where
  "oc_debit cycles oc_workload = (if cycles > oc_workload then cycles - oc_workload else 0)"

text \<open>
  Lines 1295--1344: the times of CPU \<open>j\<close> in this tick.  The result is
  \<^verbatim>\<open>wall_time\<close>, \<^verbatim>\<open>idle_time\<close> (with the io-wait and nice adjustments) and
  \<^verbatim>\<open>j_dbs_info\<close> with its four snapshots renewed.
\<close>

definition cpu_sample :: "kernel \<Rightarrow> bool \<Rightarrow> bool \<Rightarrow> gov \<Rightarrow> nat \<Rightarrow> u32 \<times> u32 \<times> cpu_dbs_info_s" where
  "cpu_sample k active boosted g j =
    (let t = tuners g;
         jd = cs_cpu_dbs_info g j;
         ct = get_cpu_idle_time k t j 0;
         cur_idle_time = fst ct;
         cur_wall_time = fst (snd ct);
         cur_io_time = snd (snd ct);
         wall_time = (ucast (cur_wall_time - prev_cpu_wall jd) :: u32);
         idle_time0 = (ucast (cur_idle_time - prev_cpu_idle jd) :: u32);
         jd1 = jd\<lparr>prev_cpu_wall := cur_wall_time, prev_cpu_idle := cur_idle_time\<rparr>;
         io_time = (ucast (cur_io_time - prev_cpu_io jd) :: u32);
         max_busy_io_time = drop_bit 7 (wall_time * io_is_busy t);
         idle_time1 =
           (if io_is_busy t \<noteq> 1 \<or> \<not> active
            then (if io_is_busy t = 0 \<or> \<not> active then idle_time0 + io_time
                  else if io_time \<ge> max_busy_io_time
                       then idle_time0 + (io_time - max_busy_io_time) else idle_time0)
            else idle_time0);
         jd2 = (if io_is_busy t \<noteq> 1 \<or> \<not> active then jd1\<lparr>prev_cpu_io := cur_io_time\<rparr> else jd1);
         idle_time =
           (if (active \<and> ignore_nice t = IGNORE_NICE_ALWAYS)
               \<or> (standby g \<and> ignore_nice t \<ge> IGNORE_NICE_STANDBY)
               \<or> (suspend g \<and> \<not> boosted)
            then idle_time1
                 + jiffies_to_usecs k (ucast (cputime_nice (times k j) - prev_cpu_nice jd))
            else idle_time1)
     in (wall_time, idle_time, jd2\<lparr>prev_cpu_nice := cputime_nice (times k j)\<rparr>))"

text \<open>
  The busy time \<^verbatim>\<open>wall_time - idle_time\<close> of CPU \<open>j\<close> in this tick; \<open>None\<close> when
  line 1346 skips the CPU (no wall time, or more idle than wall time).
\<close>

definition cpu_busy_time :: "kernel \<Rightarrow> bool \<Rightarrow> bool \<Rightarrow> gov \<Rightarrow> nat \<Rightarrow> u32 option" where
  "cpu_busy_time k active boosted g j =
    (let smp = cpu_sample k active boosted g j;
         wall_time = fst smp;
         idle_time = fst (snd smp)
     in if wall_time = 0 \<or> wall_time < idle_time then None else Some (wall_time - idle_time))"

text \<open>
  Lines 1295--1362: the body of \<^verbatim>\<open>for_each_cpu(j, policy->cpus)\<close>, on the pair of the
  globals and \<^verbatim>\<open>max_load\<close>; \<open>i\<close> is the history index of this tick.
\<close>

definition load_one :: "kernel \<Rightarrow> nat \<Rightarrow> nat \<Rightarrow> u32 \<Rightarrow> bool \<Rightarrow> bool \<Rightarrow> nat \<Rightarrow> gov \<times> u32 \<Rightarrow> gov \<times> u32" where
  "load_one k c i oc_freq_delta active boosted j = (\<lambda>(g, max_load).
    let smp = cpu_sample k active boosted g j;
        wall_time = fst smp;
        idle_time = fst (snd smp);
        g1 = g\<lparr>cs_cpu_dbs_info := (cs_cpu_dbs_info g)(j := snd (snd smp))\<rparr>
    in if wall_time = 0 \<or> wall_time < idle_time then (g1, max_load)
       else
         let cur_load = 100 * (wall_time - idle_time) div wall_time;
             h = hotplug_history g1;
             g2 = g1\<lparr>hotplug_history :=
                     h\<lparr>usage := (usage h)(i := (usage h i)\<lparr>load := (load (usage h i))(j := cur_load)\<rparr>)\<rparr>\<rparr>;
             max_load' = (if cur_load > max_load then cur_load else max_load)
         in if oc_freq_delta \<noteq> 0
            then (upd_this c (\<lambda>this. this\<lparr>oc_boost_cycles :=
                      oc_debit (oc_boost_cycles this)
                        (oc_freq_delta * (wall_time - idle_time) div 1000)\<rparr>) g2, max_load')
            else (g2, max_load'))"

text \<open>
  One pass of the loop body as it acts on the overclock credit \<open>cyc\<close>, for the
  frequency excess \<open>d\<close> (\<^verbatim>\<open>oc_freq_delta\<close>).
\<close>

definition debit_word :: "kernel \<Rightarrow> bool \<Rightarrow> bool \<Rightarrow> gov \<Rightarrow> u32 \<Rightarrow> nat \<Rightarrow> u32 \<Rightarrow> u32" where
  "debit_word k active boosted g d j cyc =
    (case cpu_busy_time k active boosted g j of
       None \<Rightarrow> cyc
     | Some busy \<Rightarrow> if d \<noteq> 0 then oc_debit cyc (d * busy div 1000) else cyc)"

text \<open>
  Lines 1365--1376: the hotplug checks, the queueing of at most one work item and
  the reset of the history at \<^verbatim>\<open>max_hotplug_rate\<close>.
\<close>

definition hotplug_check :: "kernel \<Rightarrow> nat \<Rightarrow> gov \<Rightarrow> gov option" where
  "hotplug_check k c g =
    (let max_hotplug_rate = max (cpu_up_rate (tuners g)) (cpu_down_rate (tuners g)) in
     case check_up k g of
       None \<Rightarrow> None
     | Some (up, g1) \<Rightarrow>
         (case (if up then Some (queue_work_on (Up_work c) g1)
                else (case check_down k g1 of
                        None \<Rightarrow> None
                      | Some (down, g2) \<Rightarrow>
                          Some (if down \<and> (standby g2 \<or> suspend g2)
                                then queue_work_on (Down_work c) g2 else g2))) of
            None \<Rightarrow> None
          | Some g3 \<Rightarrow>
              Some (if num_hist (hotplug_history g3) = max_hotplug_rate
                    then g3\<lparr>hotplug_history := (hotplug_history g3)\<lparr>num_hist := 0\<rparr>\<rparr>
                    else g3)))"

text \<open>
  Lines 1380--1411, the input boost: either the tick returns (\<open>Inl\<close>, with the
  globals) or it goes on with \<^verbatim>\<open>max_freq_hard\<close> and \<^verbatim>\<open>max_freq_soft\<close> (\<open>Inr\<close>).
\<close>

definition input_boost :: "nat \<Rightarrow> cpufreq_policy \<Rightarrow> bool \<Rightarrow> gov \<Rightarrow> gov + (u32 \<times> u32)" where
  "input_boost c policy boosted g =
    (let t = tuners g in
     if boosted then
       let tm = (if suspend g
                 then (if max_non_oc_freq t \<noteq> 0
                       then (if oc_freq_boost_ms t \<noteq> 0 then (pol_max policy, pol_max policy)
                             else (max_non_oc_freq t, max_non_oc_freq t))
                       else (pol_max policy, pol_max policy))
                 else (input_boost_freq t, pol_max policy));
           freq_target = fst tm;
           max_freq_hard = snd tm
       in if cur policy < freq_target
          then Inl (cpufreq_driver_target freq_target CPUFREQ_RELATION_H
                     (upd_this c (\<lambda>this. this\<lparr>requested_freq := freq_target\<rparr>) g))
          else Inr (max_freq_hard, pol_max policy)
     else if suspend g then Inr (i_suspend_max_freq_hard t, i_suspend_max_freq_soft t)
     else Inr (pol_max policy, pol_max policy))"

text \<open>Lines 1413--1424, the turbo boost limits, on (\<^verbatim>\<open>max_freq_hard\<close>, \<^verbatim>\<open>max_freq_soft\<close>).\<close>

definition turbo_limits :: "nat \<Rightarrow> bool \<Rightarrow> gov \<Rightarrow> u32 \<times> u32 \<Rightarrow> u32 \<times> u32" where
  "turbo_limits c active g = (\<lambda>(max_freq_hard, max_freq_soft).
    let t = tuners g; this = cs_cpu_dbs_info g c in
    if active \<and> max_non_oc_freq t \<noteq> 0 \<and> oc_freq_boost_ms t \<noteq> 0
    then (if oc_boost_cycles this = 0 then (max_non_oc_freq t, max_freq_soft)
          else if oc_boost_cycles this < i_oc_limit t then (max_freq_hard, max_non_oc_freq t)
          else (max_freq_hard, max_freq_soft))
    else (max_freq_hard, max_freq_soft))"

text \<open>Lines 1428--1429.\<close>

definition clamp_hard :: "cpufreq_policy \<Rightarrow> u32 \<Rightarrow> u32" where
  "clamp_hard policy max_freq_hard =
    (if max_freq_hard > pol_max policy then pol_max policy else max_freq_hard)"

text \<open>
  Lines 1440--1479, the frequency increase, entered when \<^verbatim>\<open>max_load\<close> exceeds the
  up threshold.
\<close>

definition freq_increase :: "kernel \<Rightarrow> nat \<Rightarrow> cpufreq_policy \<Rightarrow> u32 \<Rightarrow> u32 \<Rightarrow> gov \<Rightarrow> gov" where
  "freq_increase k c policy max_freq_hard max_freq_soft g =
    (let t = tuners g;
         soft1 = (if standby g then i_standby_max_freq_soft t else max_freq_soft);
         soft2 = (if soft1 > max_freq_hard then max_freq_hard else soft1);
         g1 = upd_this c (\<lambda>this. this\<lparr>down_skip := 0\<rparr>) g
     in if requested_freq (cs_cpu_dbs_info g1 c) \<ge> soft2 then g1
        else
          let g2 = upd_this c (\<lambda>this. this\<lparr>standby_counter := 0\<rparr>) g1;
              counted = upd_this c (\<lambda>this. this\<lparr>sampling_up_counter := sampling_up_counter this + 1\<rparr>) g2;
              up = sampling_up_counter (cs_cpu_dbs_info counted c);
              go = (\<lambda>g3.
                let g4 = upd_this c (\<lambda>this. this\<lparr>sampling_up_counter := 0\<rparr>) g3;
                    f = table_target k CPUFREQ_RELATION_L (cur policy + 1);
                    f' = (if f > pol_max policy then pol_max policy else f)
                in cpufreq_driver_target f' CPUFREQ_RELATION_H
                     (upd_this c (\<lambda>this. this\<lparr>requested_freq := f'\<rparr>) g4))
          in if suspend g
             then (if up < suspend_sampling_up_factor t then counted else go counted)
             else if standby g
             then (if up < standby_sampling_up_factor t then counted else go counted)
             else if power_optimal_freq t \<noteq> 0 \<and> cur policy \<ge> power_optimal_freq t
             then (if up < high_freq_sampling_up_factor t then counted else go counted)
             else go g2)"

text \<open>
  Lines 1483--1500, the standby activation: the globals afterwards and whether the
  tick returns at line 1499.
\<close>

definition standby_activation :: "nat \<Rightarrow> cpufreq_policy \<Rightarrow> bool \<Rightarrow> bool \<Rightarrow> gov \<Rightarrow> bool \<times> gov" where
  "standby_activation c policy boosted active g =
    (let t = tuners g;
         g1 = upd_this c (\<lambda>this. this\<lparr>sampling_up_counter := 0\<rparr>) g
     in if cur policy \<le> i_standby_threshold_freq t
        then
          let g2 = (if active \<and> \<not> boosted
                    then
                      let g3 = upd_this c (\<lambda>this. this\<lparr>standby_counter := standby_counter this + 1\<rparr>) g1;
                          g4 = (if standby_counter (cs_cpu_dbs_info g3 c) \<ge> standby_delay_factor t
                                then upd_this c (\<lambda>this. this\<lparr>oc_boost_cycles := 0\<rparr>) (g3\<lparr>standby := True\<rparr>)
                                else g3)
                      in g4\<lparr>delay := standby_sampling_rate t\<rparr>
                    else g1)
          in (cur policy = pol_min policy, g2)
        else (False, g1))"

text \<open>
  Lines 1506--1541, the frequency decrease and the final reset of \<^verbatim>\<open>down_skip\<close>.
  The division by \<^verbatim>\<open>up_threshold - down_differential\<close> is undefined when the two are
  equal.
\<close>

definition freq_decrease :: "kernel \<Rightarrow> nat \<Rightarrow> cpufreq_policy \<Rightarrow> bool \<Rightarrow> bool \<Rightarrow> u32 \<Rightarrow> gov \<Rightarrow> gov option" where
  "freq_decrease k c policy boosted active max_load g =
    (let t = tuners g; this = cs_cpu_dbs_info g c;
         finish = (\<lambda>g'. upd_this c (\<lambda>this. this\<lparr>down_skip := 0\<rparr>) g');
         lower = (\<lambda>f g'.
           let f' = (if f < pol_min policy then pol_min policy else f)
           in cpufreq_driver_target f' CPUFREQ_RELATION_L
                (upd_this c (\<lambda>this. this\<lparr>requested_freq := f'\<rparr>) g'))
     in if max_load < down_threshold this \<and> (\<not> boosted \<or> cur policy > input_boost_freq t)
        then
          if up_threshold t - down_differential t = 0 then None
          else
            let min_supporting_freq =
                  table_target k CPUFREQ_RELATION_L
                    (requested_freq this * max_load div (up_threshold t - down_differential t))
            in if active
               then
                 let g1 = upd_this c (\<lambda>this. this\<lparr>down_skip := down_skip this + 1\<rparr>) g
                 in if down_skip (cs_cpu_dbs_info g1 c) < sampling_down_factor t
                    then
                      (if sampling_down_factor_relax_khz t = 0
                          \<or> freq_lo this < pol_min policy + sampling_down_factor_relax_khz t
                       then Some g1
                       else if min_supporting_freq >
                               table_target k CPUFREQ_RELATION_L
                                 (freq_lo this - sampling_down_factor_relax_khz t)
                       then Some g1
                       else Some (finish (lower (freq_lo this) g1)))
                    else Some (finish (lower (freq_lo this) g1))
               else Some (finish (lower min_supporting_freq g))
        else Some (finish g))"

text \<open>
  Lines 1378--1541, the frequency logic after the hotplug checks.  \<open>boosted\<close> and
  \<open>active\<close> are the locals set at the entry of the tick.
\<close>

definition freq_logic :: "kernel \<Rightarrow> nat \<Rightarrow> cpufreq_policy \<Rightarrow> bool \<Rightarrow> bool \<Rightarrow> u32 \<Rightarrow> gov \<Rightarrow> gov option" where
  "freq_logic k c policy boosted active max_load g =
    (case input_boost c policy boosted g of
       Inl g' \<Rightarrow> Some g'
     | Inr lim \<Rightarrow>
         let lim' = turbo_limits c active g lim;
             max_freq_hard = clamp_hard policy (fst lim');
             max_freq_soft = snd lim'
         in if requested_freq (cs_cpu_dbs_info g c) > max_freq_hard
            then Some (cpufreq_driver_target max_freq_hard CPUFREQ_RELATION_H
                         (upd_this c (\<lambda>this. this\<lparr>requested_freq := max_freq_hard\<rparr>) g))
            else if max_load > (if active then up_threshold (tuners g) else 99)
            then Some (freq_increase k c policy max_freq_hard max_freq_soft g)
            else
              let sa = standby_activation c policy boosted active g
              in if fst sa then Some (snd sa)
                 else freq_decrease k c policy boosted active max_load (snd sa))"

text \<open>Lines 1294--1363: the loop over \<^verbatim>\<open>policy->cpus\<close>, starting from \<^verbatim>\<open>max_load = 0\<close>.\<close>

definition load_loop :: "kernel \<Rightarrow> nat \<Rightarrow> nat \<Rightarrow> cpufreq_policy \<Rightarrow> bool \<Rightarrow> bool \<Rightarrow> gov \<Rightarrow> gov \<times> u32" where
  "load_loop k c i policy active boosted g =
    fold (load_one k c i
            (oc_freq_delta_of active policy (tuners g) (cs_cpu_dbs_info g c)) active boosted)
         (cpus policy) (g, 0)"

definition dbs_check_cpu :: "kernel \<Rightarrow> nat \<Rightarrow> gov \<Rightarrow> gov option" where
  "dbs_check_cpu k c g =
    (let policy = cur_policy (cs_cpu_dbs_info g c);
         boosted = is_boosted (ktime_us k) g;
         active = is_active g;
         pushed = history_push policy g;
         loaded = load_loop k c (fst pushed) policy active boosted (snd pushed)
     in case hotplug_check k c (fst loaded) of
          None \<Rightarrow> None
        | Some g' \<Rightarrow> freq_logic k c policy boosted active (snd loaded) g')"

section \<open>Notions for the properties\<close>

text \<open>
  The bypasses of the history rule: \<^verbatim>\<open>check_up\<close> returns at lines 1155--1161 and
  \<^verbatim>\<open>check_down\<close> at lines 1212--1214 without looking at the history.
\<close>

definition up_bypass :: "kernel \<Rightarrow> gov \<Rightarrow> bool" where
  "up_bypass k g \<longleftrightarrow>
     (min_cpu_lock (tuners g) \<noteq> 0 \<and> num_online_cpus k < min_cpu_lock (tuners g))
     \<or> (is_boosted (ktime_us_up k) g \<and> boost_mincpus (tuners g) \<noteq> 0
         \<and> num_online_cpus k < boost_mincpus (tuners g))"

definition down_bypass :: "kernel \<Rightarrow> gov \<Rightarrow> bool" where
  "down_bypass k g \<longleftrightarrow>
     max_cpu_lock (tuners g) \<noteq> 0 \<and> num_online_cpus k > max_cpu_lock (tuners g)"

text \<open>The globals when the tick reaches the hotplug checks at line 1366.\<close>

definition before_hotplug :: "kernel \<Rightarrow> nat \<Rightarrow> gov \<Rightarrow> gov" where
  "before_hotplug k c g =
    (let policy = cur_policy (cs_cpu_dbs_info g c);
         pushed = history_push policy g
     in fst (load_loop k c (fst pushed) policy (is_active g) (is_boosted (ktime_us k) g) (snd pushed)))"

text \<open>
  The history rule of \<^verbatim>\<open>check_up\<close> in the words of the specification (section 4.3,
  item 5): the history count is a nonzero multiple of \<^verbatim>\<open>cpu_up_rate\<close>, and over the
  last \<^verbatim>\<open>cpu_up_rate\<close> samples the minimum frequency is at least, and the minimum
  run-queue average is above, the up thresholds of the row for the current number of
  online cores.  Samples and thresholds are read as \<^verbatim>\<open>int\<close>, as the source compares
  them.
\<close>

definition spec_up_rule :: "kernel \<Rightarrow> gov \<Rightarrow> bool" where
  "spec_up_rule k g \<longleftrightarrow>
    (let h = hotplug_history g;
         count = unat (num_hist h);
         up_rate = unat (cpu_up_rate (tuners g));
         online = unat (num_online_cpus k);
         recent = usage h ` {count - up_rate ..< count};
         up_freq = sint (snd (hotplug_freq g ! (online - 1)));
         up_rq = sint (snd (hotplug_rq g ! (online - 1)))
     in count \<noteq> 0 \<and> count mod up_rate = 0
        \<and> Min ((\<lambda>u. sint (freq u)) ` recent) \<ge> up_freq
        \<and> Min ((\<lambda>u. sint (rq_avg u)) ` recent) > up_rq)"

text \<open>
  What \<^verbatim>\<open>verify_freq\<close> leaves in a frequency tunable: a frequency within the limits of
  the policy.
\<close>

definition freq_validated :: "cpufreq_policy \<Rightarrow> u32 \<Rightarrow> bool" where
  "freq_validated p f \<longleftrightarrow> pol_min p \<le> f \<and> f \<le> pol_max p"

text \<open>
  Validated tunable settings for the policy \<open>p\<close>: each of the four frequency
  tunables is unset (zero) or validated, the two thresholds are in order, the two
  hotplug rates are between 1 and \<^verbatim>\<open>MAX_HOTPLUG_RATE\<close>, and the three precomputed
  limits are those \<^verbatim>\<open>recalculate_freq_limits\<close> computes for the policy.
\<close>

definition tunables_validated :: "cpufreq_policy \<Rightarrow> dbs_tuners \<Rightarrow> bool" where
  "tunables_validated p t \<longleftrightarrow>
     (input_boost_freq t = 0 \<or> freq_validated p (input_boost_freq t))
     \<and> (max_non_oc_freq t = 0 \<or> freq_validated p (max_non_oc_freq t))
     \<and> (power_optimal_freq t = 0 \<or> freq_validated p (power_optimal_freq t))
     \<and> (suspend_max_freq t = 0 \<or> freq_validated p (suspend_max_freq t))
     \<and> threshold_invariant t
     \<and> 0 < cpu_up_rate t \<and> cpu_up_rate t \<le> MAX_HOTPLUG_RATE
     \<and> 0 < cpu_down_rate t \<and> cpu_down_rate t \<le> MAX_HOTPLUG_RATE
     \<and> i_suspend_max_freq_hard t = i_suspend_max_freq_hard (recalculate_freq_limits 0 p t)
     \<and> i_suspend_max_freq_soft t = i_suspend_max_freq_soft (recalculate_freq_limits 0 p t)
     \<and> i_standby_max_freq_soft t = i_standby_max_freq_soft (recalculate_freq_limits 0 p t)"

text \<open>
  The table lookup stays within the limits of the policy, as
  \<^verbatim>\<open>cpufreq_frequency_table_target\<close> does when the table has an entry within them.
\<close>

definition lookup_within :: "cpufreq_policy \<Rightarrow> target_fn \<Rightarrow> bool" where
  "lookup_within p tt \<longleftrightarrow> (\<forall>rel f. freq_validated p (tt rel f))"

text \<open>
  The requested frequency of CPU \<open>c\<close> is within the limits of its policy.
\<close>

definition requested_within :: "nat \<Rightarrow> gov \<Rightarrow> bool" where
  "requested_within c g \<longleftrightarrow>
     freq_validated (cur_policy (cs_cpu_dbs_info g c)) (requested_freq (cs_cpu_dbs_info g c))"

text \<open>
  The fields of \<^verbatim>\<open>this_dbs_info\<close> that only the frequency logic writes.
\<close>

definition decision_fields :: "cpu_dbs_info_s \<Rightarrow> cpufreq_policy \<times> u32 \<times> u32 \<times> u32 \<times> u32 \<times> u32 \<times> u32" where
  "decision_fields i = (cur_policy i, freq_lo i, down_skip i, requested_freq i,
     sampling_up_counter i, standby_counter i, down_threshold i)"

text \<open>
  The hotplug tables have their four rows and between one and four cores are online.
\<close>

definition rows_present :: "kernel \<Rightarrow> gov \<Rightarrow> bool" where
  "rows_present k g \<longleftrightarrow>
     length (hotplug_freq g) = 4 \<and> length (hotplug_rq g) = 4
     \<and> 0 < num_online_cpus k \<and> num_online_cpus k \<le> 4"

text \<open>
  The hard ceiling of a tick: \<^verbatim>\<open>max_freq_hard\<close> after the clamp of lines 1428--1429;
  \<open>None\<close> when the tick returns in the input boost before.
\<close>

definition hard_ceiling :: "nat \<Rightarrow> cpufreq_policy \<Rightarrow> bool \<Rightarrow> bool \<Rightarrow> gov \<Rightarrow> u32 option" where
  "hard_ceiling c p boosted active g =
    (case input_boost c p boosted g of
       Inl g' \<Rightarrow> None
     | Inr lim \<Rightarrow> Some (clamp_hard p (fst (turbo_limits c active g lim))))"

text \<open>Which way the frequency logic of a tick goes (lines 1378--1541).\<close>

datatype path = Boost_return | Hard_limit_return | At_soft_ceiling | Increase | Below_up_threshold

definition freq_path :: "nat \<Rightarrow> cpufreq_policy \<Rightarrow> bool \<Rightarrow> bool \<Rightarrow> u32 \<Rightarrow> gov \<Rightarrow> path" where
  "freq_path c p boosted active max_load g =
    (case input_boost c p boosted g of
       Inl g' \<Rightarrow> Boost_return
     | Inr lim \<Rightarrow>
         let lim' = turbo_limits c active g lim;
             max_freq_hard = clamp_hard p (fst lim');
             soft1 = (if standby g then i_standby_max_freq_soft (tuners g) else snd lim');
             soft2 = (if soft1 > max_freq_hard then max_freq_hard else soft1)
         in if requested_freq (cs_cpu_dbs_info g c) > max_freq_hard then Hard_limit_return
            else if max_load > (if active then up_threshold (tuners g) else 99)
            then (if requested_freq (cs_cpu_dbs_info g c) \<ge> soft2 then At_soft_ceiling
                  else Increase)
            else Below_up_threshold)"

text \<open>
  A qualifying tick for the standby counter (lines 1487--1488): the current frequency
  is at most the standby threshold, the tick started in Active mode and is not
  boosted.
\<close>

definition standby_qualifying :: "cpufreq_policy \<Rightarrow> bool \<Rightarrow> bool \<Rightarrow> gov \<Rightarrow> bool" where
  "standby_qualifying p boosted active g \<longleftrightarrow>
     cur p \<le> i_standby_threshold_freq (tuners g) \<and> active \<and> \<not> boosted"

text \<open>\<^verbatim>\<open>max_load\<close> as the loop of the tick computes it.\<close>

definition tick_max_load :: "kernel \<Rightarrow> nat \<Rightarrow> gov \<Rightarrow> u32" where
  "tick_max_load k c g =
    (let policy = cur_policy (cs_cpu_dbs_info g c);
         pushed = history_push policy g
     in snd (load_loop k c (fst pushed) policy (is_active g) (is_boosted (ktime_us k) g) (snd pushed)))"

text \<open>
  A run of ticks of one CPU, as \<^verbatim>\<open>do_dbs_timer\<close> makes them one after the other.
  Between two ticks the hardware may have moved to another frequency: each step gives
  the frequency the tick finds in \<^verbatim>\<open>policy->cur\<close> and the readings of the kernel at
  the tick.
\<close>

definition set_cur :: "nat \<Rightarrow> u32 \<Rightarrow> gov \<Rightarrow> gov" where
  "set_cur c f g = upd_this c (\<lambda>i. i\<lparr>cur_policy := (cur_policy i)\<lparr>cur := f\<rparr>\<rparr>) g"

fun run_ticks :: "nat \<Rightarrow> (u32 \<times> kernel) list \<Rightarrow> gov \<Rightarrow> gov option" where
  "run_ticks c [] g = Some g"
| "run_ticks c ((f, k) # rest) g =
    (case dbs_check_cpu k c (set_cur c f g) of
       None \<Rightarrow> None
     | Some g' \<Rightarrow> run_ticks c rest g')"

section \<open>A sample platform\<close>

text \<open>
  Modelled from the spec: \<^verbatim>\<open>cpufreq_frequency_table_target\<close> of the kernel's
  \<^verbatim>\<open>freq_table.c\<close> is not part of the governor's source file.  Section 6 of the
  specification describes it as a lookup in the table of supported frequencies
  with a relation that rounds up or down: among the table entries within the policy's
  limits, \<^verbatim>\<open>CPUFREQ_RELATION_L\<close> takes the lowest one at or above the target and
  \<^verbatim>\<open>CPUFREQ_RELATION_H\<close> the highest one at or below it, each falling back to the nearest
  entry on the other side.  It serves only as the lookup of the sample platform on
  which the theorems below are instantiated.
\<close>

definition freq_table_target :: "u32 list \<Rightarrow> cpufreq_policy \<Rightarrow> target_fn" where
  "freq_table_target table policy rel target =
    (let valid = filter (\<lambda>f. pol_min policy \<le> f \<and> f \<le> pol_max policy) table;
         above = filter (\<lambda>f. f \<ge> target) valid;
         below = filter (\<lambda>f. f \<le> target) valid
     in case rel of
          CPUFREQ_RELATION_L \<Rightarrow>
            (if above \<noteq> [] then fold min above (hd above)
             else if below \<noteq> [] then fold max below (hd below) else 0)
        | CPUFREQ_RELATION_H \<Rightarrow>
            (if below \<noteq> [] then fold max below (hd below)
             else if above \<noteq> [] then fold min above (hd above) else 0))"

text \<open>The sample platform: four cores, thirteen frequencies from 200 MHz to 1.4 GHz.\<close>

definition sample_freqs :: "u32 list" where
  "sample_freqs = [1400000, 1300000, 1200000, 1100000, 1000000, 900000, 800000,
                   700000, 600000, 500000, 400000, 300000, 200000]"

definition zero_times :: cpu_times where
  "zero_times = \<lparr>idle_time_us = 0, idle_wall_us = 0, iowait_time_us = 0, iowait_wall_us = 0,
     cputime_user = 0, cputime_system = 0, cputime_irq = 0, cputime_softirq = 0,
     cputime_steal = 0, cputime_nice = 0, jiffies_64 = 0\<rparr>"

text \<open>
  A policy over CPU 0 with the limits 200 MHz and 1.4 GHz, running at \<open>f\<close>.
\<close>

definition sample_policy :: "u32 \<Rightarrow> cpufreq_policy" where
  "sample_policy f = \<lparr>pol_min = 200000, pol_max = 1400000, cur = f, cpus = [0]\<rparr>"

text \<open>
  The kernel at a tick two seconds after boot, with \<open>online\<close> of four cores online:
  every CPU reports the wall time \<open>wall\<close> and the idle time \<open>idle\<close> in microseconds
  (\<^verbatim>\<open>HZ\<close> is 200).
\<close>

definition sample_kernel :: "cpufreq_policy \<Rightarrow> u32 \<Rightarrow> u64 \<Rightarrow> u64 \<Rightarrow> kernel" where
  "sample_kernel policy online wall idle =
    \<lparr>ktime_us = 2000000, ktime_us_up = 2000000, ktime_us_down = 2000000,
     times = (\<lambda>j. zero_times\<lparr>idle_time_us := idle, idle_wall_us := wall, iowait_wall_us := wall\<rparr>),
     jiffies_to_usecs = (\<lambda>j. 5000 * j),
     num_online_cpus = online, num_possible_cpus = 4,
     table_target = freq_table_target sample_freqs policy\<rparr>"

text \<open>Per-CPU data as \<^verbatim>\<open>DEFINE_PER_CPU\<close> leaves it (all zero), enabled, with its policy.\<close>

definition zero_info :: "cpufreq_policy \<Rightarrow> cpu_dbs_info_s" where
  "zero_info policy = \<lparr>prev_cpu_idle = 0, prev_cpu_wall = 0, prev_cpu_nice = 0, prev_cpu_io = 0,
     cur_policy = policy, freq_lo = 0, down_skip = 0, requested_freq = 0,
     sampling_up_counter = 0, standby_counter = 0, down_threshold = 0, oc_boost_cycles = 0,
     enable = True\<rparr>"

definition zero_usage :: cpu_usage where
  "zero_usage = \<lparr>freq = 0, load = (\<lambda>_. 0), rq_avg = 0\<rparr>"

text \<open>
  The globals with the default tunables and tables, the limits recalculated for the
  policy, an empty history, no input event so far, and \<open>info\<close> for every CPU.
\<close>

definition sample_gov :: "cpu_dbs_info_s \<Rightarrow> gov" where
  "sample_gov info =
    \<lparr>tuners = recalculate_freq_limits 4 (cur_policy info) (dbs_tuners_ins 200),
     suspend = False, standby = False, delay = 6, last_input_time = 0,
     hotplug_history = \<lparr>usage = (\<lambda>_. zero_usage), num_hist = 0\<rparr>,
     rq_data = \<lparr>nr_run_avg = 0, update_rate = 10, last_time = 0, total_time = 0\<rparr>,
     hotplug_rq = default_hotplug_rq, hotplug_freq = default_hotplug_freq,
     cs_cpu_dbs_info = (\<lambda>_. info),
     queued = [], driver_target = []\<rparr>"

section \<open>Unfolding rules\<close>

lemmas tick_defs =
  dbs_check_cpu_def is_boosted_def is_active_def history_push_def get_nr_run_avg_def
  load_loop_def load_one_def cpu_sample_def oc_freq_delta_of_def oc_debit_def
  get_cpu_idle_time_def get_cpu_idle_time_jiffy_def
  hotplug_check_def check_up_def check_down_def table_row_def
  MAX_HOTPLUG_RATE_def IGNORE_NICE_ALWAYS_def IGNORE_NICE_STANDBY_def INT_MAX_def
  freq_logic_def input_boost_def turbo_limits_def clamp_hard_def freq_increase_def
  standby_activation_def freq_decrease_def upd_this_def cpufreq_driver_target_def
  queue_work_on_def

lemmas sample_defs =
  sample_kernel_def sample_gov_def sample_policy_def zero_info_def zero_usage_def zero_times_def
  default_hotplug_rq_def default_hotplug_freq_def recalculate_freq_limits_def dbs_tuners_ins_def
  freq_table_target_def sample_freqs_def

section \<open>The run-queue average is drained by a read\<close>

text \<open>
  C7, as stated: a read of the run-queue tracker returns the average and zeroes both
  the average and the accumulated total time.  The source's \<^verbatim>\<open>get_nr_run_avg\<close> zeroes
  only \<^verbatim>\<open>nr_run_avg\<close>: on data with the average 150 and 30 ms accumulated, the read
  returns 150, clears the average and leaves \<^verbatim>\<open>total_time\<close> at 30.
\<close>

theorem get_nr_run_avg_keeps_total_time:
  "fst (get_nr_run_avg \<lparr>nr_run_avg = 150, update_rate = 10, last_time = 5000000, total_time = 30\<rparr>) = 150
   \<and> nr_run_avg (snd (get_nr_run_avg
        \<lparr>nr_run_avg = 150, update_rate = 10, last_time = 5000000, total_time = 30\<rparr>)) = 0
   \<and> total_time (snd (get_nr_run_avg
        \<lparr>nr_run_avg = 150, update_rate = 10, last_time = 5000000, total_time = 30\<rparr>)) = 30"
  by (simp add: get_nr_run_avg_def)

lemma ucast_ucast_u32_u64 [simp]: "(ucast (ucast (x :: u32) :: u64) :: u32) = x"
  by (simp add: ucast_up_ucast_id is_up)

text \<open>
  C7, amended: a read returns the current average and zeroes the average only; the
  total time and the time stamp are left as they are.  A second read with no sampler
  tick in between returns 0.  The total time is dropped by the next sampler tick
  instead (it finds the average at 0), so that tick restarts the accumulator: the
  new average is \<^verbatim>\<open>nr_running() * 100\<close> alone and the new total time is the time since
  the previous sample.
\<close>

theorem get_nr_run_avg_drains_average:
  "fst (get_nr_run_avg rq) = nr_run_avg rq
   \<and> snd (get_nr_run_avg rq) = rq\<lparr>nr_run_avg := 0\<rparr>
   \<and> fst (get_nr_run_avg (snd (get_nr_run_avg rq))) = 0
   \<and> rq_work_fn cur_time running (snd (get_nr_run_avg rq)) =
       Some (rq\<lparr>nr_run_avg := running * 100,
                total_time := (cur_time - (if last_time rq = 0 then cur_time else last_time rq))
                              div 1000000,
                last_time := cur_time\<rparr>)"
  by (simp add: get_nr_run_avg_def rq_work_fn_def do_div_def Let_def)

section \<open>The setters of the two thresholds\<close>

lemma recalculate_down_threshold_Some:
  "cur (cur_policy info) \<noteq> 0 \<Longrightarrow>
   \<exists>info'. recalculate_down_threshold t info = Some info' \<and> cur_policy info' = cur_policy info"
  by (simp add: recalculate_down_threshold_def Let_def)

lemma recalculate_all_Some:
  "policies_running cs g \<Longrightarrow> policies_running online g \<Longrightarrow>
   \<exists>g'. recalculate_down_threshold_all cs g = Some g' \<and> tuners g' = tuners g
        \<and> policies_running online g'"
proof (induction cs arbitrary: g)
  case Nil
  then show ?case by simp
next
  case (Cons cpu rest)
  from Cons.prems have c: "cur (cur_policy (cs_cpu_dbs_info g cpu)) \<noteq> 0"
    by (simp add: policies_running_def)
  then obtain d where d: "recalculate_down_threshold (tuners g) (cs_cpu_dbs_info g cpu) = Some d"
      "cur_policy d = cur_policy (cs_cpu_dbs_info g cpu)"
    using recalculate_down_threshold_Some by blast
  let ?g = "g\<lparr>cs_cpu_dbs_info := (cs_cpu_dbs_info g)(cpu := d)\<rparr>"
  have keep: "\<And>l. policies_running l g \<Longrightarrow> policies_running l ?g"
    using d(2) by (auto simp: policies_running_def list_all_iff)
  from Cons.prems have r: "policies_running rest g"
    by (simp add: policies_running_def)
  from Cons.IH [OF keep [OF r] keep [OF Cons.prems(2)]] show ?case using d(1) by simp
qed

lemma store_one_invariant:
  assumes "threshold_invariant (tuners g)" and "policies_running online g"
  shows "\<exists>r g'. store_one online count st g = Some (r, g') \<and> threshold_invariant (tuners g')
          \<and> policies_running online g'"
proof (cases st)
  case (Store_up_threshold inp)
  show ?thesis
  proof (cases "\<exists>v. inp = Some v \<and> down_differential (tuners g) < v \<and> v \<le> 100")
    case True
    then obtain v where v: "inp = Some v" "down_differential (tuners g) < v" "v \<le> 100" by blast
    let ?g = "g\<lparr>tuners := (tuners g)\<lparr>up_threshold := v\<rparr>\<rparr>"
    have "policies_running online ?g" using assms(2) by (simp add: policies_running_def)
    from recalculate_all_Some [OF this this] obtain g' where
      "recalculate_down_threshold_all online ?g = Some g'" "tuners g' = tuners ?g"
      "policies_running online g'" by blast
    then show ?thesis using v Store_up_threshold
      by (simp add: store_one_def store_up_threshold_def threshold_invariant_def)
  next
    case False
    then show ?thesis using assms Store_up_threshold
      by (cases inp) (auto simp: store_one_def store_up_threshold_def)
  qed
next
  case (Store_down_differential inp)
  show ?thesis
  proof (cases "\<exists>v. inp = Some v \<and> 0 < v \<and> v < up_threshold (tuners g)")
    case True
    then obtain v where v: "inp = Some v" "0 < v" "v < up_threshold (tuners g)" by blast
    let ?g = "g\<lparr>tuners := (tuners g)\<lparr>down_differential := v\<rparr>\<rparr>"
    have "policies_running online ?g" using assms(2) by (simp add: policies_running_def)
    from recalculate_all_Some [OF this this] obtain g' where
      "recalculate_down_threshold_all online ?g = Some g'" "tuners g' = tuners ?g"
      "policies_running online g'" by blast
    then show ?thesis using v Store_down_differential assms(1)
      by (simp add: store_one_def store_down_differential_def threshold_invariant_def)
  next
    case False
    then show ?thesis using assms Store_down_differential
      by (cases inp) (auto simp: store_one_def store_down_differential_def)
  qed
qed

lemma run_stores_invariant:
  "threshold_invariant (tuners g) \<Longrightarrow> policies_running online g \<Longrightarrow>
   \<exists>g'. run_stores online count calls g = Some g' \<and> threshold_invariant (tuners g')"
proof (induction calls arbitrary: g)
  case Nil
  then show ?case by simp
next
  case (Cons st rest)
  from store_one_invariant [OF Cons.prems] obtain r g1 where
    s: "store_one online count st g = Some (r, g1)" "threshold_invariant (tuners g1)"
       "policies_running online g1" by blast
  from Cons.IH [OF s(2,3)] show ?case using s(1) by simp
qed

text \<open>
  C9: a store to \<^verbatim>\<open>up_threshold\<close> whose input is not a number or is outside
  \<open>down_differential < input \<le> 100\<close>, and a store to \<^verbatim>\<open>down_differential\<close> whose
  input is not a number or is outside \<open>0 < input < up_threshold\<close>, returns
  \<^verbatim>\<open>-EINVAL\<close> and leaves every global as it was.  Starting from globals with
  \<open>down_differential < up_threshold \<le> 100\<close>, every sequence of calls of the two
  setters runs to its end and ends in globals with
  \<open>down_differential < up_threshold \<le> 100\<close>.
\<close>

theorem threshold_stores_validated:
  assumes "threshold_invariant (tuners g)" and "policies_running online g"
  shows "(\<forall>inp. (case inp of None \<Rightarrow> True
                  | Some v \<Rightarrow> \<not> (down_differential (tuners g) < v \<and> v \<le> 100)) \<longrightarrow>
            store_up_threshold online inp count g = Some (Inl EINVAL, g))
       \<and> (\<forall>inp. (case inp of None \<Rightarrow> True
                  | Some v \<Rightarrow> \<not> (0 < v \<and> v < up_threshold (tuners g))) \<longrightarrow>
            store_down_differential online inp count g = Some (Inl EINVAL, g))
       \<and> (\<exists>g'. run_stores online count calls g = Some g' \<and> threshold_invariant (tuners g'))"
proof (intro conjI allI impI)
  fix inp
  assume "case inp of None \<Rightarrow> True | Some v \<Rightarrow> \<not> (down_differential (tuners g) < v \<and> v \<le> 100)"
  then show "store_up_threshold online inp count g = Some (Inl EINVAL, g)"
    by (cases inp) (auto simp: store_up_threshold_def)
next
  fix inp
  assume "case inp of None \<Rightarrow> True | Some v \<Rightarrow> \<not> (0 < v \<and> v < up_threshold (tuners g))"
  then show "store_down_differential online inp count g = Some (Inl EINVAL, g)"
    by (cases inp) (auto simp: store_down_differential_def)
next
  show "\<exists>g'. run_stores online count calls g = Some g' \<and> threshold_invariant (tuners g')"
    using run_stores_invariant [OF assms] .
qed

text \<open>
  On the sample platform with the default thresholds 85 and 5: the stores of 101 and of
  5 to \<^verbatim>\<open>up_threshold\<close> and of 85 and of no number to \<^verbatim>\<open>down_differential\<close> are refused
  and change nothing; the sequence 90, (95), 10, (10), (101), 60 (refused stores in
  parentheses) ends with the thresholds 60 and 10.
\<close>

theorem threshold_stores_validated_witness:
  "threshold_invariant (tuners (sample_gov (zero_info (sample_policy 800000))))
   \<and> policies_running [0, 1] (sample_gov (zero_info (sample_policy 800000)))
   \<and> store_up_threshold [0, 1] (Some 101) 3 (sample_gov (zero_info (sample_policy 800000)))
       = Some (Inl EINVAL, sample_gov (zero_info (sample_policy 800000)))
   \<and> store_up_threshold [0, 1] (Some 5) 3 (sample_gov (zero_info (sample_policy 800000)))
       = Some (Inl EINVAL, sample_gov (zero_info (sample_policy 800000)))
   \<and> store_down_differential [0, 1] (Some 85) 3 (sample_gov (zero_info (sample_policy 800000)))
       = Some (Inl EINVAL, sample_gov (zero_info (sample_policy 800000)))
   \<and> store_down_differential [0, 1] None 3 (sample_gov (zero_info (sample_policy 800000)))
       = Some (Inl EINVAL, sample_gov (zero_info (sample_policy 800000)))
   \<and> (\<exists>g'. run_stores [0, 1] 3
          [Store_up_threshold (Some 90), Store_down_differential (Some 95),
           Store_down_differential (Some 10), Store_up_threshold (Some 10),
           Store_up_threshold (Some 101), Store_up_threshold (Some 60)]
          (sample_gov (zero_info (sample_policy 800000))) = Some g'
        \<and> threshold_invariant (tuners g')
        \<and> up_threshold (tuners g') = 60 \<and> down_differential (tuners g') = 10)"
proof -
  let ?g = "sample_gov (zero_info (sample_policy 800000))"
  let ?calls = "[Store_up_threshold (Some 90), Store_down_differential (Some 95),
           Store_down_differential (Some 10), Store_up_threshold (Some 10),
           Store_up_threshold (Some 101), Store_up_threshold (Some 60)]"
  have a: "threshold_invariant (tuners ?g)"
    by (simp add: threshold_invariant_def sample_defs)
  have b: "policies_running [0, 1] ?g"
    by (simp add: policies_running_def sample_defs)
  note T = threshold_stores_validated [OF a b, where count = 3 and calls = ?calls]
  have dd: "down_differential (tuners ?g) = 5" and ut: "up_threshold (tuners ?g) = 85"
    by (simp_all add: sample_defs)
  from T have u1: "store_up_threshold [0, 1] (Some 101) 3 ?g = Some (Inl EINVAL, ?g)"
    by (simp add: dd)
  from T have u2: "store_up_threshold [0, 1] (Some 5) 3 ?g = Some (Inl EINVAL, ?g)"
    by (simp add: dd)
  from T have d1: "store_down_differential [0, 1] (Some 85) 3 ?g = Some (Inl EINVAL, ?g)"
    by (simp add: ut)
  from T have d2: "store_down_differential [0, 1] None 3 ?g = Some (Inl EINVAL, ?g)"
    by simp
  from T obtain g' where g': "run_stores [0, 1] 3 ?calls ?g = Some g'"
    "threshold_invariant (tuners g')" by blast
  have c: "map_option (\<lambda>g. (up_threshold (tuners g), down_differential (tuners g)))
       (run_stores [0, 1] 3 ?calls ?g) = Some (60, 10)"
    by (simp add: store_one_def store_up_threshold_def store_down_differential_def
        recalculate_down_threshold_def sample_defs Let_def)
  with g' have "up_threshold (tuners g') = 60 \<and> down_differential (tuners g') = 10"
    by simp
  with a b u1 u2 d1 d2 g' show ?thesis by blast
qed

section \<open>The down threshold\<close>

lemma unat_span: "(dd :: u32) \<le> ut \<Longrightarrow> unat (ut - dd) = unat ut - unat dd"
  by (simp add: unat_sub)

lemma unat_scaled:
  fixes a f c :: u32
  assumes "unat a * unat f < 2 ^ 32"
  shows "unat (a * f div c) = unat a * unat f div unat c"
proof -
  have "unat (a * f) = unat a * unat f"
    using assms by (simp add: unat_mult_lem [THEN iffD1])
  then show ?thesis by (simp add: unat_div)
qed

text \<open>
  C8: whenever \<^verbatim>\<open>recalculate_down_threshold\<close> recomputes the down threshold of a CPU
  (its callers are the transition notifier, the two threshold setters and the
  governor's start), the new value is the quotient
  \<open>(up_threshold - down_differential) * freq_lo / cur\<close> when the quotient lies in
  \<open>[10, up_threshold - down_differential]\<close>, and \<open>(up_threshold - down_differential) / 2\<close>
  otherwise; nothing else of the CPU's data changes.  The numbers are the unsigned
  values of the 32-bit fields; the policy runs at a nonzero frequency, the two
  thresholds are in order and the product fits 32 bits.
\<close>

theorem recalculate_down_threshold_value:
  assumes run: "cur (cur_policy info) \<noteq> 0"
    and ord: "down_differential t \<le> up_threshold t"
    and fits: "(unat (up_threshold t) - unat (down_differential t)) * unat (freq_lo info) < 2 ^ 32"
  shows "\<exists>d. recalculate_down_threshold t info = Some (info\<lparr>down_threshold := d\<rparr>)
     \<and> unat d =
        (let span = unat (up_threshold t) - unat (down_differential t);
             q = span * unat (freq_lo info) div unat (cur (cur_policy info))
         in if 10 \<le> q \<and> q \<le> span then q else span div 2)"
proof -
  let ?a = "up_threshold t - down_differential t"
  let ?temp = "?a * freq_lo info div cur (cur_policy info)"
  have span: "unat ?a = unat (up_threshold t) - unat (down_differential t)"
    using ord by (rule unat_span)
  have q: "unat ?temp = unat ?a * unat (freq_lo info) div unat (cur (cur_policy info))"
    using fits by (simp add: unat_scaled span)
  have lt: "?temp < 10 \<longleftrightarrow> unat ?temp < 10"
    by (simp add: word_less_nat_alt)
  have gt: "?temp > ?a \<longleftrightarrow> unat ?temp > unat ?a"
    by (simp add: word_less_nat_alt)
  have half: "unat (?a div 2) = unat ?a div 2"
    by (simp add: unat_div)
  show ?thesis
  proof (cases "?temp < 10 \<or> ?temp > ?a")
    case True
    then have "recalculate_down_threshold t info = Some (info\<lparr>down_threshold := ?a div 2\<rparr>)"
      using run by (simp add: recalculate_down_threshold_def Let_def)
    moreover from True have "\<not> (10 \<le> unat ?temp \<and> unat ?temp \<le> unat ?a)"
      using lt gt by auto
    ultimately show ?thesis using half q span by (auto simp: Let_def)
  next
    case False
    then have "recalculate_down_threshold t info = Some (info\<lparr>down_threshold := ?temp\<rparr>)"
      using run by (simp add: recalculate_down_threshold_def Let_def)
    moreover from False have "10 \<le> unat ?temp \<and> unat ?temp \<le> unat ?a"
      using lt gt by auto
    ultimately show ?thesis using q span by (auto simp: Let_def)
  qed
qed

text \<open>
  With the default thresholds 85 and 5 at 1 GHz: \<open>freq_lo\<close> = 900 MHz gives
  \<open>80 * 900000 / 1000000 = 72\<close>; \<open>freq_lo\<close> = 100 MHz gives the quotient 8, below 10,
  hence \<open>80 / 2 = 40\<close>.
\<close>

theorem recalculate_down_threshold_value_witness:
  "recalculate_down_threshold (dbs_tuners_ins 200)
       ((zero_info (sample_policy 1000000))\<lparr>freq_lo := 900000\<rparr>)
     = Some ((zero_info (sample_policy 1000000))\<lparr>freq_lo := 900000, down_threshold := 72\<rparr>)
   \<and> recalculate_down_threshold (dbs_tuners_ins 200)
       ((zero_info (sample_policy 1000000))\<lparr>freq_lo := 100000\<rparr>)
     = Some ((zero_info (sample_policy 1000000))\<lparr>freq_lo := 100000, down_threshold := 40\<rparr>)"
proof -
  let ?t = "dbs_tuners_ins 200"
  let ?i = "(zero_info (sample_policy 1000000))\<lparr>freq_lo := 900000\<rparr>"
  let ?j = "(zero_info (sample_policy 1000000))\<lparr>freq_lo := 100000\<rparr>"
  have r: "cur (cur_policy ?i) \<noteq> 0" "cur (cur_policy ?j) \<noteq> 0"
    by (simp_all add: sample_defs)
  have o: "down_differential ?t \<le> up_threshold ?t"
    by (simp add: sample_defs)
  have f: "(unat (up_threshold ?t) - unat (down_differential ?t)) * unat (freq_lo ?i) < 2 ^ 32"
    "(unat (up_threshold ?t) - unat (down_differential ?t)) * unat (freq_lo ?j) < 2 ^ 32"
    by (simp_all add: sample_defs)
  from recalculate_down_threshold_value [OF r(1) o f(1)] obtain d where
    d: "recalculate_down_threshold ?t ?i = Some (?i\<lparr>down_threshold := d\<rparr>)" "unat d = 72"
    by (auto simp: sample_defs Let_def)
  from recalculate_down_threshold_value [OF r(2) o f(2)] obtain e where
    e: "recalculate_down_threshold ?t ?j = Some (?j\<lparr>down_threshold := e\<rparr>)" "unat e = 40"
    by (auto simp: sample_defs Let_def)
  from d(2) have "d = 72" by (simp add: word_unat_eq_iff)
  moreover from e(2) have "e = 40" by (simp add: word_unat_eq_iff)
  ultimately show ?thesis using d(1) e(1) by simp
qed

section \<open>The overclock credit\<close>

lemma cpu_sample_credit [simp]:
  "oc_boost_cycles (snd (snd (cpu_sample k active boosted g j))) = oc_boost_cycles (cs_cpu_dbs_info g j)"
  by (simp add: cpu_sample_def Let_def)

lemma load_one_credit:
  "oc_boost_cycles (cs_cpu_dbs_info (fst (load_one k c i d active boosted j (g, m))) c) =
    (case cpu_busy_time k active boosted g j of
       None \<Rightarrow> oc_boost_cycles (cs_cpu_dbs_info g c)
     | Some busy \<Rightarrow>
         if d \<noteq> 0 then oc_debit (oc_boost_cycles (cs_cpu_dbs_info g c)) (d * busy div 1000)
         else oc_boost_cycles (cs_cpu_dbs_info g c))"
  by (simp add: load_one_def cpu_busy_time_def upd_this_def Let_def)

lemma unat_oc_debit: "unat (oc_debit cycles w) = unat cycles - unat w"
  by (simp add: oc_debit_def unat_sub word_less_nat_alt word_le_nat_alt)

lemma unat_oc_freq_delta:
  assumes "active" "cur policy > max_non_oc_freq t" "oc_boost_cycles this \<noteq> 0"
  shows "unat (oc_freq_delta_of active policy t this)
         = (unat (cur policy) - unat (max_non_oc_freq t)) div 1000"
  using assms by (simp add: oc_freq_delta_of_def unat_div unat_sub word_less_nat_alt word_le_nat_alt)

text \<open>The times of another CPU are not touched by one pass of the loop body.\<close>

lemma cpu_sample_times_cong:
  assumes "tuners g' = tuners g" "standby g' = standby g" "suspend g' = suspend g"
    "prev_cpu_wall (cs_cpu_dbs_info g' j) = prev_cpu_wall (cs_cpu_dbs_info g j)"
    "prev_cpu_idle (cs_cpu_dbs_info g' j) = prev_cpu_idle (cs_cpu_dbs_info g j)"
    "prev_cpu_io (cs_cpu_dbs_info g' j) = prev_cpu_io (cs_cpu_dbs_info g j)"
    "prev_cpu_nice (cs_cpu_dbs_info g' j) = prev_cpu_nice (cs_cpu_dbs_info g j)"
  shows "cpu_busy_time k active boosted g' j = cpu_busy_time k active boosted g j"
  using assms by (simp add: cpu_busy_time_def cpu_sample_def Let_def)

lemma load_one_flags:
  "tuners (fst (load_one k c i d active boosted j (g, m))) = tuners g"
  "standby (fst (load_one k c i d active boosted j (g, m))) = standby g"
  "suspend (fst (load_one k c i d active boosted j (g, m))) = suspend g"
  by (simp_all add: load_one_def upd_this_def Let_def)

lemma load_one_other:
  assumes "j' \<noteq> j"
  shows "prev_cpu_wall (cs_cpu_dbs_info (fst (load_one k c i d active boosted j (g, m))) j')
           = prev_cpu_wall (cs_cpu_dbs_info g j')"
    "prev_cpu_idle (cs_cpu_dbs_info (fst (load_one k c i d active boosted j (g, m))) j')
           = prev_cpu_idle (cs_cpu_dbs_info g j')"
    "prev_cpu_io (cs_cpu_dbs_info (fst (load_one k c i d active boosted j (g, m))) j')
           = prev_cpu_io (cs_cpu_dbs_info g j')"
    "prev_cpu_nice (cs_cpu_dbs_info (fst (load_one k c i d active boosted j (g, m))) j')
           = prev_cpu_nice (cs_cpu_dbs_info g j')"
  using assms by (simp_all add: load_one_def upd_this_def Let_def)

lemma load_one_busy_other:
  "j' \<noteq> j \<Longrightarrow>
   cpu_busy_time k active boosted (fst (load_one k c i d active boosted j (g, m))) j'
     = cpu_busy_time k active boosted g j'"
  by (rule cpu_sample_times_cong) (simp_all add: load_one_flags load_one_other)

lemma load_fold_credit:
  "distinct js \<Longrightarrow>
   oc_boost_cycles (cs_cpu_dbs_info (fst (fold (load_one k c i d active boosted) js (g, m))) c)
     = fold (debit_word k active boosted g d) js (oc_boost_cycles (cs_cpu_dbs_info g c))"
proof (induction js arbitrary: g m)
  case Nil
  then show ?case by simp
next
  case (Cons j js)
  obtain g' m' where s: "load_one k c i d active boosted j (g, m) = (g', m')"
    by (cases "load_one k c i d active boosted j (g, m)")
  have g': "g' = fst (load_one k c i d active boosted j (g, m))" by (simp add: s)
  have same: "\<And>j'. j' \<in> set js \<Longrightarrow>
      debit_word k active boosted g' d j' = debit_word k active boosted g d j'"
  proof -
    fix j' assume "j' \<in> set js"
    with Cons.prems have "j' \<noteq> j" by auto
    then show "debit_word k active boosted g' d j' = debit_word k active boosted g d j'"
      by (intro ext) (simp add: debit_word_def g' load_one_busy_other)
  qed
  have first: "oc_boost_cycles (cs_cpu_dbs_info g' c)
      = debit_word k active boosted g d j (oc_boost_cycles (cs_cpu_dbs_info g c))"
    by (simp add: g' load_one_credit debit_word_def)
  have "oc_boost_cycles (cs_cpu_dbs_info (fst (fold (load_one k c i d active boosted) js (g', m'))) c)
     = fold (debit_word k active boosted g' d) js (oc_boost_cycles (cs_cpu_dbs_info g' c))"
    using Cons.prems by (intro Cons.IH) simp
  also have "\<dots> = fold (debit_word k active boosted g d) js (oc_boost_cycles (cs_cpu_dbs_info g' c))"
    by (rule fold_cong) (simp_all add: same)
  finally show ?case by (simp add: s first)
qed

lemma unat_debit_fold:
  assumes "\<forall>j\<in>set js. \<forall>busy. cpu_busy_time k active boosted g j = Some busy \<longrightarrow>
             unat d * unat busy < 2 ^ 32"
  shows "unat (fold (debit_word k active boosted g d) js cyc)
     = fold (\<lambda>j credit. case cpu_busy_time k active boosted g j of
                None \<Rightarrow> credit
              | Some busy \<Rightarrow> credit - unat d * unat busy div 1000) js (unat cyc)"
  using assms
proof (induction js arbitrary: cyc)
  case Nil
  then show ?case by simp
next
  case (Cons j js)
  have step: "unat (debit_word k active boosted g d j cyc)
      = (case cpu_busy_time k active boosted g j of
           None \<Rightarrow> unat cyc
         | Some busy \<Rightarrow> unat cyc - unat d * unat busy div 1000)"
  proof (cases "cpu_busy_time k active boosted g j")
    case None
    then show ?thesis by (simp add: debit_word_def)
  next
    case (Some busy)
    with Cons.prems have "unat d * unat busy < 2 ^ 32" by simp
    then have "unat (d * busy div 1000) = unat d * unat busy div 1000"
      by (simp add: unat_scaled)
    with Some show ?thesis by (cases "d = 0") (simp_all add: debit_word_def unat_oc_debit)
  qed
  from Cons.prems have "\<forall>j\<in>set js. \<forall>busy. cpu_busy_time k active boosted g j = Some busy \<longrightarrow>
             unat d * unat busy < 2 ^ 32" by simp
  from Cons.IH [OF this] show ?case by (simp add: step)
qed

text \<open>
  C6: in a tick in Active mode at a frequency above \<^verbatim>\<open>max_non_oc_freq\<close> with credit
  left, the loop over the policy's CPUs debits the overclock credit, for each CPU it
  does not skip, by \<open>(cur - max_non_oc_freq) / 1000\<close> (kHz to MHz, rounded down) times
  that CPU's busy time of this tick in milliseconds (the source holds the busy time in
  microseconds and divides the product by 1000, rounding down), and the credit stops
  at 0: the subtraction is the truncating one of the natural numbers.  The products
  fit 32 bits.
\<close>

theorem oc_credit_debited:
  assumes act: "active"
    and above: "max_non_oc_freq (tuners g) < cur policy"
    and credit: "oc_boost_cycles (cs_cpu_dbs_info g c) \<noteq> 0"
    and dist: "distinct (cpus policy)"
    and fits: "\<forall>j\<in>set (cpus policy). \<forall>busy. cpu_busy_time k active boosted g j = Some busy \<longrightarrow>
        (unat (cur policy) - unat (max_non_oc_freq (tuners g))) div 1000 * unat busy < 2 ^ 32"
  shows "unat (oc_boost_cycles (cs_cpu_dbs_info (fst (load_loop k c i policy active boosted g)) c))
     = fold (\<lambda>j credit. case cpu_busy_time k active boosted g j of
               None \<Rightarrow> credit
             | Some busy \<Rightarrow>
                 credit - (unat (cur policy) - unat (max_non_oc_freq (tuners g))) div 1000
                          * unat busy div 1000)
         (cpus policy) (unat (oc_boost_cycles (cs_cpu_dbs_info g c)))"
proof -
  let ?d = "oc_freq_delta_of active policy (tuners g) (cs_cpu_dbs_info g c)"
  have d: "unat ?d = (unat (cur policy) - unat (max_non_oc_freq (tuners g))) div 1000"
    using act above credit by (rule unat_oc_freq_delta)
  have "oc_boost_cycles (cs_cpu_dbs_info (fst (load_loop k c i policy active boosted g)) c)
      = fold (debit_word k active boosted g ?d) (cpus policy) (oc_boost_cycles (cs_cpu_dbs_info g c))"
    unfolding load_loop_def using dist by (rule load_fold_credit)
  moreover have "unat (fold (debit_word k active boosted g ?d) (cpus policy)
        (oc_boost_cycles (cs_cpu_dbs_info g c)))
      = fold (\<lambda>j credit. case cpu_busy_time k active boosted g j of
                None \<Rightarrow> credit
              | Some busy \<Rightarrow> credit - unat ?d * unat busy div 1000)
          (cpus policy) (unat (oc_boost_cycles (cs_cpu_dbs_info g c)))"
    using fits by (intro unat_debit_fold) (simp add: d)
  ultimately show ?thesis by (simp add: d cong: option.case_cong)
qed

text \<open>
  The example of the claim: one core busy for 1000 microseconds at
  \<^verbatim>\<open>max_non_oc_freq\<close> + 100000 kHz (1 GHz against the default 900 MHz), with the
  credit 4000000: the debit is 100.
\<close>

theorem oc_credit_debited_witness:
  "unat (oc_boost_cycles (cs_cpu_dbs_info
      (fst (load_loop (sample_kernel (sample_policy 1000000) 4 1000 0) 0 0 (sample_policy 1000000)
              True False
              (sample_gov ((zero_info (sample_policy 1000000))\<lparr>oc_boost_cycles := 4000000\<rparr>)))) 0))
     = 4000000 - 100"
proof -
  let ?p = "sample_policy 1000000"
  let ?k = "sample_kernel ?p 4 1000 0"
  let ?g = "sample_gov ((zero_info ?p)\<lparr>oc_boost_cycles := 4000000\<rparr>)"
  have busy: "cpu_busy_time ?k True False ?g 0 = Some 1000"
    by (simp add: cpu_busy_time_def cpu_sample_def get_cpu_idle_time_def sample_defs
        IGNORE_NICE_ALWAYS_def IGNORE_NICE_STANDBY_def Let_def)
  have cpus: "cpus ?p = [0]" by (simp add: sample_defs)
  have a: "max_non_oc_freq (tuners ?g) < cur ?p" by (simp add: sample_defs)
  have b: "oc_boost_cycles (cs_cpu_dbs_info ?g 0) \<noteq> 0" by (simp add: sample_defs)
  have c: "distinct (cpus ?p)" by (simp add: cpus)
  have f: "\<forall>j\<in>set (cpus ?p). \<forall>busy. cpu_busy_time ?k True False ?g j = Some busy \<longrightarrow>
        (unat (cur ?p) - unat (max_non_oc_freq (tuners ?g))) div 1000 * unat busy < 2 ^ 32"
    by (simp add: cpus busy) (simp add: sample_defs)
  have v: "unat (cur ?p) = 1000000" "unat (max_non_oc_freq (tuners ?g)) = 900000"
    "unat (oc_boost_cycles (cs_cpu_dbs_info ?g 0)) = 4000000"
    by (simp_all add: sample_defs)
  from oc_credit_debited [OF TrueI a b c f, of 0] show ?thesis
    by (simp add: cpus busy v)
qed

section \<open>Hotplug actions of a tick\<close>

subsection \<open>What each part of the tick leaves alone\<close>

lemma history_push_frame:
  "queued (snd (history_push p g)) = queued g"
  "standby (snd (history_push p g)) = standby g"
  "suspend (snd (history_push p g)) = suspend g"
  "tuners (snd (history_push p g)) = tuners g"
  "cs_cpu_dbs_info (snd (history_push p g)) = cs_cpu_dbs_info g"
  "driver_target (snd (history_push p g)) = driver_target g"
  "hotplug_freq (snd (history_push p g)) = hotplug_freq g"
  "hotplug_rq (snd (history_push p g)) = hotplug_rq g"
  "last_input_time (snd (history_push p g)) = last_input_time g"
  by (simp_all add: history_push_def Let_def)

lemma load_one_frame:
  "tuners (fst (load_one k c i d active boosted j gm)) = tuners (fst gm)"
  "standby (fst (load_one k c i d active boosted j gm)) = standby (fst gm)"
  "suspend (fst (load_one k c i d active boosted j gm)) = suspend (fst gm)"
  "queued (fst (load_one k c i d active boosted j gm)) = queued (fst gm)"
  "driver_target (fst (load_one k c i d active boosted j gm)) = driver_target (fst gm)"
  "hotplug_freq (fst (load_one k c i d active boosted j gm)) = hotplug_freq (fst gm)"
  "hotplug_rq (fst (load_one k c i d active boosted j gm)) = hotplug_rq (fst gm)"
  "last_input_time (fst (load_one k c i d active boosted j gm)) = last_input_time (fst gm)"
  "num_hist (hotplug_history (fst (load_one k c i d active boosted j gm)))
     = num_hist (hotplug_history (fst gm))"
  by (cases gm; simp add: load_one_def upd_this_def Let_def)+

lemma load_fold_frame:
  "tuners (fst (fold (load_one k c i d active boosted) js gm)) = tuners (fst gm)
   \<and> standby (fst (fold (load_one k c i d active boosted) js gm)) = standby (fst gm)
   \<and> suspend (fst (fold (load_one k c i d active boosted) js gm)) = suspend (fst gm)
   \<and> queued (fst (fold (load_one k c i d active boosted) js gm)) = queued (fst gm)
   \<and> driver_target (fst (fold (load_one k c i d active boosted) js gm)) = driver_target (fst gm)
   \<and> hotplug_freq (fst (fold (load_one k c i d active boosted) js gm)) = hotplug_freq (fst gm)
   \<and> hotplug_rq (fst (fold (load_one k c i d active boosted) js gm)) = hotplug_rq (fst gm)
   \<and> last_input_time (fst (fold (load_one k c i d active boosted) js gm)) = last_input_time (fst gm)
   \<and> num_hist (hotplug_history (fst (fold (load_one k c i d active boosted) js gm)))
       = num_hist (hotplug_history (fst gm))"
  by (induction js arbitrary: gm) (simp_all add: load_one_frame)

lemma load_loop_frame:
  "tuners (fst (load_loop k c i p active boosted g)) = tuners g"
  "standby (fst (load_loop k c i p active boosted g)) = standby g"
  "suspend (fst (load_loop k c i p active boosted g)) = suspend g"
  "queued (fst (load_loop k c i p active boosted g)) = queued g"
  "driver_target (fst (load_loop k c i p active boosted g)) = driver_target g"
  "hotplug_freq (fst (load_loop k c i p active boosted g)) = hotplug_freq g"
  "hotplug_rq (fst (load_loop k c i p active boosted g)) = hotplug_rq g"
  "last_input_time (fst (load_loop k c i p active boosted g)) = last_input_time g"
  "num_hist (hotplug_history (fst (load_loop k c i p active boosted g))) = num_hist (hotplug_history g)"
  using load_fold_frame [of k c i _ active boosted "cpus p" "(g, 0)"]
  by (simp_all add: load_loop_def)

lemma check_up_frame:
  assumes "check_up k g = Some (up, g1)"
  shows "g1 = g \<or> g1 = g\<lparr>hotplug_history := (hotplug_history g)\<lparr>num_hist := 0\<rparr>\<rparr>"
  using assms by (auto simp: check_up_def Let_def split: option.splits if_splits prod.splits)

lemma check_down_frame:
  assumes "check_down k g = Some (down, g1)"
  shows "g1 = g \<or> g1 = g\<lparr>hotplug_history := (hotplug_history g)\<lparr>num_hist := 0\<rparr>\<rparr>"
  using assms by (auto simp: check_down_def Let_def split: option.splits if_splits prod.splits)

lemma check_up_fires:
  assumes "check_up k g = Some (True, g1)"
  shows "(up_bypass k g \<and> g1 = g) \<or> (\<not> up_bypass k g \<and> num_hist (hotplug_history g1) = 0)"
  using assms
  by (auto simp: check_up_def up_bypass_def Let_def split: option.splits if_splits prod.splits)

lemma check_down_fires:
  assumes "check_down k g = Some (True, g1)"
  shows "(down_bypass k g \<and> g1 = g) \<or> (\<not> down_bypass k g \<and> num_hist (hotplug_history g1) = 0)"
  using assms
  by (auto simp: check_down_def down_bypass_def Let_def split: option.splits if_splits prod.splits)

lemma hotplug_check_queue:
  assumes "hotplug_check k c g = Some g'"
  shows "\<exists>up g1. check_up k g = Some (up, g1) \<and>
     (if up then queued g' = queued g @ [Up_work c]
      else \<exists>down g2. check_down k g1 = Some (down, g2) \<and>
             queued g' = queued g @ (if down \<and> (standby g \<or> suspend g) then [Down_work c] else []))"
proof -
  from assms obtain up g1 where u: "check_up k g = Some (up, g1)"
    by (auto simp: hotplug_check_def Let_def split: option.splits)
  from check_up_frame [OF u] have f1: "queued g1 = queued g" "standby g1 = standby g"
    "suspend g1 = suspend g" by auto
  show ?thesis
  proof (cases up)
    case True
    with assms u f1 have "queued g' = queued g @ [Up_work c]"
      by (auto simp: hotplug_check_def queue_work_on_def Let_def split: if_splits)
    with u True show ?thesis by auto
  next
    case False
    with assms u obtain down g2 where d: "check_down k g1 = Some (down, g2)"
      by (auto simp: hotplug_check_def Let_def split: option.splits)
    from check_down_frame [OF d] have f2: "queued g2 = queued g1" "standby g2 = standby g1"
      "suspend g2 = suspend g1" by auto
    from assms u d False f1 f2
    have "queued g' = queued g @ (if down \<and> (standby g \<or> suspend g) then [Down_work c] else [])"
      by (auto simp: hotplug_check_def queue_work_on_def Let_def split: if_splits)
    with u d False show ?thesis by auto
  qed
qed

lemma upd_this_frame [simp]:
  "queued (upd_this c f g) = queued g"
  "standby (upd_this c f g) = standby g"
  "suspend (upd_this c f g) = suspend g"
  "tuners (upd_this c f g) = tuners g"
  "delay (upd_this c f g) = delay g"
  "driver_target (upd_this c f g) = driver_target g"
  "hotplug_history (upd_this c f g) = hotplug_history g"
  "cs_cpu_dbs_info (upd_this c f g) c = f (cs_cpu_dbs_info g c)"
  by (simp_all add: upd_this_def)

lemma cpufreq_driver_target_frame [simp]:
  "queued (cpufreq_driver_target f r g) = queued g"
  "standby (cpufreq_driver_target f r g) = standby g"
  "suspend (cpufreq_driver_target f r g) = suspend g"
  "tuners (cpufreq_driver_target f r g) = tuners g"
  "delay (cpufreq_driver_target f r g) = delay g"
  "hotplug_history (cpufreq_driver_target f r g) = hotplug_history g"
  "cs_cpu_dbs_info (cpufreq_driver_target f r g) = cs_cpu_dbs_info g"
  by (simp_all add: cpufreq_driver_target_def)

lemma input_boost_queued: "input_boost c p boosted g = Inl g' \<Longrightarrow> queued g' = queued g"
  by (auto simp: input_boost_def Let_def split: if_splits)

lemma freq_increase_queued: "queued (freq_increase k c p hard soft g) = queued g"
  by (simp add: freq_increase_def Let_def)

lemma standby_activation_queued: "queued (snd (standby_activation c p boosted active g)) = queued g"
  by (simp add: standby_activation_def Let_def)

lemma freq_decrease_queued: "freq_decrease k c p boosted active m g = Some g' \<Longrightarrow> queued g' = queued g"
  by (auto simp: freq_decrease_def Let_def split: if_splits)

lemma freq_logic_queued:
  assumes "freq_logic k c p boosted active m g = Some g'"
  shows "queued g' = queued g"
proof (cases "input_boost c p boosted g")
  case (Inl a)
  with assms show ?thesis by (simp add: freq_logic_def input_boost_queued)
next
  case (Inr lim)
  with assms show ?thesis
    by (auto simp: freq_logic_def Let_def freq_increase_queued standby_activation_queued
        dest: freq_decrease_queued split: if_splits)
qed

lemma before_hotplug_frame:
  "queued (before_hotplug k c g) = queued g"
  "standby (before_hotplug k c g) = standby g"
  "suspend (before_hotplug k c g) = suspend g"
  "tuners (before_hotplug k c g) = tuners g"
  by (simp_all add: before_hotplug_def Let_def load_loop_frame history_push_frame)

lemma dbs_check_cpu_hotplug:
  assumes "dbs_check_cpu k c g = Some g'"
  shows "\<exists>g3. hotplug_check k c (before_hotplug k c g) = Some g3 \<and> queued g' = queued g3"
  using assms
  by (auto simp: dbs_check_cpu_def before_hotplug_def Let_def dest: freq_logic_queued
      split: option.splits)

text \<open>
  C3, as stated: after either check returns true the history count is 0.  On the
  sample platform with two of four cores online and the default \<^verbatim>\<open>min_cpu_lock\<close> of 4,
  \<^verbatim>\<open>check_up\<close> returns true through the lock at lines 1155--1157 and leaves a history
  count of 3 at 3; a whole tick from an empty history queues the up work and ends
  with the count 1.
\<close>

theorem check_up_lock_keeps_history:
  "map_option (\<lambda>r. (fst r, num_hist (hotplug_history (snd r))))
     (check_up (sample_kernel (sample_policy 800000) 2 30000 15000)
        ((sample_gov (zero_info (sample_policy 800000)))
           \<lparr>hotplug_history := \<lparr>usage = (\<lambda>_. zero_usage), num_hist = 3\<rparr>\<rparr>)) = Some (True, 3)
   \<and> map_option (\<lambda>g. (queued g, num_hist (hotplug_history g)))
     (dbs_check_cpu (sample_kernel (sample_policy 800000) 2 30000 15000) 0
        (sample_gov ((zero_info (sample_policy 800000))\<lparr>requested_freq := 800000\<rparr>)))
      = Some ([Up_work 0], 1)"
  by (simp add: tick_defs sample_defs Let_def)

text \<open>
  C3, amended: in every tick at most one hotplug action is queued.  \<^verbatim>\<open>check_up\<close> is
  evaluated first; when it returns true the up work alone is queued; only when it
  returns false is \<^verbatim>\<open>check_down\<close> evaluated, and the down work is queued when that
  returns true in Standby or Suspend mode.  After \<^verbatim>\<open>check_up\<close> or \<^verbatim>\<open>check_down\<close>
  returns true through its history rule the history count is 0; when it returns true
  through a bypass (\<^verbatim>\<open>min_cpu_lock\<close> or \<^verbatim>\<open>boost_mincpus\<close> for \<^verbatim>\<open>check_up\<close>,
  \<^verbatim>\<open>max_cpu_lock\<close> for \<^verbatim>\<open>check_down\<close>) the globals, and so the history count, are
  left as they are.
\<close>

theorem one_hotplug_action_per_tick:
  assumes "dbs_check_cpu k c g = Some g'"
  shows "\<exists>up g1. check_up k (before_hotplug k c g) = Some (up, g1) \<and>
     (if up
      then queued g' = queued g @ [Up_work c]
           \<and> (if up_bypass k (before_hotplug k c g) then g1 = before_hotplug k c g
               else num_hist (hotplug_history g1) = 0)
      else \<exists>down g2. check_down k g1 = Some (down, g2)
           \<and> queued g' = queued g @ (if down \<and> (standby g \<or> suspend g) then [Down_work c] else [])
           \<and> (if down
               then (if down_bypass k g1 then g2 = g1 else num_hist (hotplug_history g2) = 0)
               else True))"
proof -
  let ?b = "before_hotplug k c g"
  from dbs_check_cpu_hotplug [OF assms] obtain g3 where
    h: "hotplug_check k c ?b = Some g3" and q: "queued g' = queued g3" by blast
  from hotplug_check_queue [OF h] obtain up g1 where u: "check_up k ?b = Some (up, g1)"
    and r: "if up then queued g3 = queued ?b @ [Up_work c]
      else \<exists>down g2. check_down k g1 = Some (down, g2) \<and>
             queued g3 = queued ?b @ (if down \<and> (standby ?b \<or> suspend ?b) then [Down_work c] else [])"
    by blast
  show ?thesis
  proof (cases up)
    case True
    with u check_up_fires [of k ?b g1] have "if up_bypass k ?b then g1 = ?b
               else num_hist (hotplug_history g1) = 0" by auto
    with True u r q show ?thesis by (auto simp: before_hotplug_frame)
  next
    case False
    with r obtain down g2 where d: "check_down k g1 = Some (down, g2)"
      and qd: "queued g3 = queued ?b @ (if down \<and> (standby ?b \<or> suspend ?b) then [Down_work c] else [])"
      by auto
    have "if down then (if down_bypass k g1 then g2 = g1 else num_hist (hotplug_history g2) = 0)
          else True"
      using d check_down_fires [of k g1 g2] by auto
    with False u d qd q show ?thesis by (auto simp: before_hotplug_frame)
  qed
qed

theorem one_hotplug_action_per_tick_witness:
  "dbs_check_cpu (sample_kernel (sample_policy 800000) 2 30000 15000) 0
        (sample_gov ((zero_info (sample_policy 800000))\<lparr>requested_freq := 800000\<rparr>)) \<noteq> None
   \<and> (\<exists>g'. dbs_check_cpu (sample_kernel (sample_policy 800000) 2 30000 15000) 0
        (sample_gov ((zero_info (sample_policy 800000))\<lparr>requested_freq := 800000\<rparr>)) = Some g'
       \<and> queued g' = [Up_work 0])"
proof -
  let ?k = "sample_kernel (sample_policy 800000) 2 30000 15000"
  let ?g = "sample_gov ((zero_info (sample_policy 800000))\<lparr>requested_freq := 800000\<rparr>)"
  have "dbs_check_cpu ?k 0 ?g \<noteq> None"
    by (simp add: tick_defs sample_defs Let_def)
  then obtain g' where g': "dbs_check_cpu ?k 0 ?g = Some g'" by blast
  have up: "map_option fst (check_up ?k (before_hotplug ?k 0 ?g)) = Some True"
    by (simp add: before_hotplug_def tick_defs sample_defs Let_def)
  have q: "queued ?g = []" by (simp add: sample_defs)
  from one_hotplug_action_per_tick [OF g'] up q have "queued g' = [Up_work 0]"
    by (auto split: if_splits)
  with g' show ?thesis by simp
qed

text \<open>
  C10: a tick that starts in Active mode (neither \<^verbatim>\<open>standby\<close> nor \<^verbatim>\<open>suspend\<close> set)
  queues no down work: it queues nothing or the up work alone, also when
  \<^verbatim>\<open>check_down\<close> returns true.
\<close>

theorem active_tick_queues_no_down_work:
  assumes "is_active g" and "dbs_check_cpu k c g = Some g'"
  shows "queued g' = queued g \<or> queued g' = queued g @ [Up_work c]"
proof -
  let ?b = "before_hotplug k c g"
  from assms(1) have a: "\<not> standby g" "\<not> suspend g" by (simp_all add: is_active_def)
  from dbs_check_cpu_hotplug [OF assms(2)] obtain g3 where
    h: "hotplug_check k c ?b = Some g3" and q: "queued g' = queued g3" by blast
  from hotplug_check_queue [OF h] a q show ?thesis
    by (auto simp: before_hotplug_frame split: if_splits)
qed

text \<open>
  On the sample platform in Active mode with three cores online and \<^verbatim>\<open>max_cpu_lock\<close>
  set to 2, \<^verbatim>\<open>check_down\<close> returns true and the tick queues nothing.
\<close>

theorem active_tick_queues_no_down_work_witness:
  "is_active ((sample_gov ((zero_info (sample_policy 800000))\<lparr>requested_freq := 800000\<rparr>))
        \<lparr>tuners := (dbs_tuners_ins 200)\<lparr>max_cpu_lock := 2, min_cpu_lock := 0\<rparr>\<rparr>)
   \<and> map_option fst (check_down (sample_kernel (sample_policy 800000) 3 30000 15000)
        (before_hotplug (sample_kernel (sample_policy 800000) 3 30000 15000) 0
          ((sample_gov ((zero_info (sample_policy 800000))\<lparr>requested_freq := 800000\<rparr>))
             \<lparr>tuners := (dbs_tuners_ins 200)\<lparr>max_cpu_lock := 2, min_cpu_lock := 0\<rparr>\<rparr>))) = Some True
   \<and> (\<exists>g'. dbs_check_cpu (sample_kernel (sample_policy 800000) 3 30000 15000) 0
        ((sample_gov ((zero_info (sample_policy 800000))\<lparr>requested_freq := 800000\<rparr>))
           \<lparr>tuners := (dbs_tuners_ins 200)\<lparr>max_cpu_lock := 2, min_cpu_lock := 0\<rparr>\<rparr>) = Some g'
       \<and> queued g' = [])"
proof -
  let ?k = "sample_kernel (sample_policy 800000) 3 30000 15000"
  let ?g = "(sample_gov ((zero_info (sample_policy 800000))\<lparr>requested_freq := 800000\<rparr>))
        \<lparr>tuners := (dbs_tuners_ins 200)\<lparr>max_cpu_lock := 2, min_cpu_lock := 0\<rparr>\<rparr>"
  have a: "is_active ?g" by (simp add: is_active_def sample_defs)
  have d: "map_option fst (check_down ?k (before_hotplug ?k 0 ?g)) = Some True"
    by (simp add: before_hotplug_def tick_defs sample_defs Let_def)
  have "map_option queued (dbs_check_cpu ?k 0 ?g) = Some []"
    by (simp add: tick_defs sample_defs Let_def)
  then obtain g' where g': "dbs_check_cpu ?k 0 ?g = Some g'" "queued g' = []" by auto
  from active_tick_queues_no_down_work [OF a g'(1)] a d g' show ?thesis by blast
qed

section \<open>The history rule of check_up\<close>

lemma Min_insert_min:
  fixes a x :: int
  assumes "finite S"
  shows "Min (insert (min a x) S) = Min (insert a (insert x S))"
proof (cases "S = {}")
  case True
  then show ?thesis by (simp add: min_def)
next
  case False
  with assms show ?thesis by (simp add: min.assoc)
qed

lemma check_up_loop_Min:
  "0 \<le> lo \<Longrightarrow> i < 40 \<Longrightarrow>
   check_up_loop h i lo a b =
     Some (Min (insert a ((\<lambda>x. sint (freq (usage h (nat x)))) ` {lo..i})),
           Min (insert b ((\<lambda>x. sint (rq_avg (usage h (nat x)))) ` {lo..i})))"
proof (induction h i lo a b rule: check_up_loop.induct)
  case (1 h i lo a b)
  show ?case
  proof (cases "lo \<le> i")
    case True
    with "1.prems" have range: "\<not> (i < 0 \<or> i \<ge> uint MAX_HOTPLUG_RATE)"
      by (simp add: MAX_HOTPLUG_RATE_def)
    have split: "{lo..i} = insert i {lo..i - 1}" using True by auto
    from "1.IH" [OF True range] "1.prems"
    have "check_up_loop h (i - 1) lo (min a (sint (freq (usage h (nat i)))))
            (min b (sint (rq_avg (usage h (nat i))))) =
       Some (Min (insert (min a (sint (freq (usage h (nat i)))))
                   ((\<lambda>x. sint (freq (usage h (nat x)))) ` {lo..i - 1})),
             Min (insert (min b (sint (rq_avg (usage h (nat i)))))
                   ((\<lambda>x. sint (rq_avg (usage h (nat x)))) ` {lo..i - 1})))"
      by simp
    then show ?thesis
      using True range
      by (subst check_up_loop.simps) (simp add: Min_insert_min split insert_commute)
  next
    case False
    then show ?thesis by (subst check_up_loop.simps) simp
  qed
qed

lemma window_image:
  "(\<lambda>x. F (usage h (nat x))) ` {int a..int b - 1} = F ` (usage h ` {a..<b})"
proof -
  have "{int a..int b - 1} = {int a..<int b}" by auto
  also have "\<dots> = int ` {a..<b}" by (simp add: image_int_atLeastLessThan)
  finally show ?thesis by (simp add: image_image)
qed

lemma Min_INT_MAX:
  assumes "finite S" "S \<noteq> {}" "\<forall>x\<in>S. x \<le> INT_MAX"
  shows "Min (insert INT_MAX S) = Min S"
proof -
  have "Min S \<in> S" using assms by simp
  with assms(3) have "Min S \<le> INT_MAX" by blast
  with assms show ?thesis by (simp add: min_absorb2)
qed

lemma sint_le_INT_MAX: "sint (w :: u32) \<le> INT_MAX"
  using sint_lt [of w] by (simp add: INT_MAX_def)

lemma smod_nat: "int a smod int b = int (a mod b)"
  by (simp add: smod_int_alt_def zmod_int sgn_if)

lemma sint_small:
  assumes "(w :: u32) \<le> 40"
  shows "sint w = int (unat w)"
proof -
  have p: "(2::int) ^ 31 = 2147483648" by simp
  from assms have "uint w \<le> 40" by (simp add: word_le_def)
  then have "uint w < 2147483648" by simp
  moreover have "- 2147483648 \<le> uint w" using uint_ge_0 [of w] by linarith
  ultimately have "signed_take_bit 31 (uint w) = uint w"
    by (intro signed_take_bit_int_eq_self) (simp_all only: p)
  then show ?thesis by (simp add: sint_uint)
qed

lemma table_row_online:
  assumes "length tab = 4" "0 < (w :: u32)" "w \<le> 4"
  shows "table_row tab (sint w - 1) = Some (tab ! (unat w - 1))"
proof -
  from assms(3) have "w \<le> 40" by (simp add: word_le_nat_alt)
  then have s: "sint w = int (unat w)" by (rule sint_small)
  from assms(2,3) have "0 < unat w" "unat w \<le> 4"
    by (simp_all add: word_less_nat_alt word_le_nat_alt)
  then show ?thesis using assms(1)
    by (simp add: table_row_def s nat_diff_distrib del: of_nat_unat)
qed

lemma up_window_Min:
  assumes "0 < r" "r \<le> n" "n \<le> 40"
  shows "check_up_loop h (int n - 1) (int n - int r) INT_MAX INT_MAX =
     Some (Min ((\<lambda>u. sint (freq u)) ` usage h ` {n - r ..< n}),
           Min ((\<lambda>u. sint (rq_avg u)) ` usage h ` {n - r ..< n}))"
proof -
  have lo: "int n - int r = int (n - r)" using assms by simp
  have ne: "usage h ` {n - r ..< n} \<noteq> {}" using assms by simp
  have "check_up_loop h (int n - 1) (int (n - r)) INT_MAX INT_MAX =
     Some (Min (insert INT_MAX ((\<lambda>x. sint (freq (usage h (nat x)))) ` {int (n - r)..int n - 1})),
           Min (insert INT_MAX ((\<lambda>x. sint (rq_avg (usage h (nat x)))) ` {int (n - r)..int n - 1})))"
    using assms by (intro check_up_loop_Min) simp_all
  also have "(\<lambda>x. sint (freq (usage h (nat x)))) ` {int (n - r)..int n - 1}
      = (\<lambda>u. sint (freq u)) ` usage h ` {n - r ..< n}"
    by (rule window_image)
  also have "(\<lambda>x. sint (rq_avg (usage h (nat x)))) ` {int (n - r)..int n - 1}
      = (\<lambda>u. sint (rq_avg u)) ` usage h ` {n - r ..< n}"
    by (rule window_image)
  also have "Min (insert INT_MAX ((\<lambda>u. sint (freq u)) ` usage h ` {n - r ..< n}))
      = Min ((\<lambda>u. sint (freq u)) ` usage h ` {n - r ..< n})"
    using ne by (intro Min_INT_MAX) (auto simp: sint_le_INT_MAX)
  also have "Min (insert INT_MAX ((\<lambda>u. sint (rq_avg u)) ` usage h ` {n - r ..< n}))
      = Min ((\<lambda>u. sint (rq_avg u)) ` usage h ` {n - r ..< n})"
    using ne by (intro Min_INT_MAX) (auto simp: sint_le_INT_MAX)
  finally show ?thesis by (simp only: lo)
qed

lemma check_up_by_history:
  assumes rows: "length (hotplug_freq g) = 4" "length (hotplug_rq g) = 4"
      "0 < num_online_cpus k" "num_online_cpus k \<le> 4"
    and not_all: "num_online_cpus k \<noteq> num_possible_cpus k"
    and no_max: "\<not> (max_cpu_lock (tuners g) \<noteq> 0 \<and> num_online_cpus k \<ge> max_cpu_lock (tuners g))"
    and no_bypass: "\<not> up_bypass k g"
    and rate: "0 < cpu_up_rate (tuners g)" "cpu_up_rate (tuners g) \<le> MAX_HOTPLUG_RATE"
    and hist: "num_hist (hotplug_history g) \<le> MAX_HOTPLUG_RATE"
  shows "check_up k g =
     Some (spec_up_rule k g,
           if spec_up_rule k g then g\<lparr>hotplug_history := (hotplug_history g)\<lparr>num_hist := 0\<rparr>\<rparr>
           else g)"
proof -
  let ?h = "hotplug_history g"
  let ?n = "unat (num_hist ?h)"
  let ?r = "unat (cpu_up_rate (tuners g))"
  let ?o = "unat (num_online_cpus k)"
  have n: "sint (num_hist ?h) = int ?n"
    using hist by (intro sint_small) (simp add: MAX_HOTPLUG_RATE_def)
  have r: "sint (cpu_up_rate (tuners g)) = int ?r"
    using rate(2) by (intro sint_small) (simp add: MAX_HOTPLUG_RATE_def)
  have rpos: "0 < ?r" using rate(1) by (simp add: word_less_nat_alt)
  have n40: "?n \<le> 40" using hist by (simp add: MAX_HOTPLUG_RATE_def word_le_nat_alt)
  have fr: "table_row (hotplug_freq g) (sint (num_online_cpus k) - 1) = Some (hotplug_freq g ! (?o - 1))"
    using rows by (intro table_row_online)
  have rr: "table_row (hotplug_rq g) (sint (num_online_cpus k) - 1) = Some (hotplug_rq g ! (?o - 1))"
    using rows by (intro table_row_online)
  from no_bypass have nb:
    "\<not> (min_cpu_lock (tuners g) \<noteq> 0 \<and> num_online_cpus k < min_cpu_lock (tuners g))"
    "\<not> (is_boosted (ktime_us_up k) g \<and> boost_mincpus (tuners g) \<noteq> 0
         \<and> num_online_cpus k < boost_mincpus (tuners g))"
    by (auto simp: up_bypass_def)
  note facts = check_up_def Let_def fr rr n r smod_nat not_all no_max nb
  show ?thesis
  proof (cases "?n = 0")
    case True
    then have "\<not> spec_up_rule k g" by (simp add: spec_up_rule_def Let_def)
    moreover from True have "check_up k g = Some (False, g)"
      by (simp add: facts del: of_nat_unat)
    ultimately show ?thesis by simp
  next
    case False
    show ?thesis
    proof (cases "?n mod ?r = 0")
      case miss: False
      then have "\<not> spec_up_rule k g" by (simp add: spec_up_rule_def Let_def)
      moreover from miss False rpos have "check_up k g = Some (False, g)"
        by (simp add: facts del: of_nat_unat)
      ultimately show ?thesis by simp
    next
      case hit: True
      with False have "?r dvd ?n" "0 < ?n" by auto
      then have le: "?r \<le> ?n" by (simp add: dvd_imp_le)
      note w = up_window_Min [OF rpos le n40, of ?h]
      show ?thesis
      proof (cases "spec_up_rule k g")
        case True
        then have "sint (snd (hotplug_freq g ! (?o - 1)))
              \<le> Min ((\<lambda>u. sint (freq u)) ` usage ?h ` {?n - ?r ..< ?n})"
          "sint (snd (hotplug_rq g ! (?o - 1)))
              < Min ((\<lambda>u. sint (rq_avg u)) ` usage ?h ` {?n - ?r ..< ?n})"
          by (simp_all add: spec_up_rule_def Let_def)
        with hit False rpos
        have "check_up k g = Some (True, g\<lparr>hotplug_history := ?h\<lparr>num_hist := 0\<rparr>\<rparr>)"
          by (simp add: facts w del: of_nat_unat)
        with True show ?thesis by simp
      next
        case no: False
        with hit False have "\<not> (sint (snd (hotplug_freq g ! (?o - 1)))
              \<le> Min ((\<lambda>u. sint (freq u)) ` usage ?h ` {?n - ?r ..< ?n})
          \<and> sint (snd (hotplug_rq g ! (?o - 1)))
              < Min ((\<lambda>u. sint (rq_avg u)) ` usage ?h ` {?n - ?r ..< ?n}))"
          by (simp add: spec_up_rule_def Let_def)
        with hit False rpos
        have "check_up k g = Some (False, g)"
          by (simp add: facts w del: of_nat_unat)
        with no show ?thesis by simp
      qed
    qed
  qed
qed

text \<open>
  C5: when no earlier rule of \<^verbatim>\<open>check_up\<close> applies (not all cores online, no
  \<^verbatim>\<open>max_cpu_lock\<close> reached, no \<^verbatim>\<open>min_cpu_lock\<close> or boost bypass), \<^verbatim>\<open>check_up\<close> returns
  true exactly when the history count is a nonzero multiple of \<^verbatim>\<open>cpu_up_rate\<close> and over
  the last \<^verbatim>\<open>cpu_up_rate\<close> samples the minimum frequency is at least \<^verbatim>\<open>up_freq\<close> and
  the minimum run-queue average is above \<^verbatim>\<open>up_rq\<close>, both thresholds from the row of
  the current number of online cores; on success the history count is reset to 0 and
  nothing else changes; otherwise it returns false and changes nothing.  The two
  tables have their four rows, one to four cores are online, \<^verbatim>\<open>cpu_up_rate\<close> is
  between 1 and 40 and the history count is at most 40 (as it is inside a tick).
\<close>

theorem check_up_history_rule:
  assumes rows: "length (hotplug_freq g) = 4" "length (hotplug_rq g) = 4"
      "0 < num_online_cpus k" "num_online_cpus k \<le> 4"
    and not_all: "num_online_cpus k \<noteq> num_possible_cpus k"
    and no_max: "\<not> (max_cpu_lock (tuners g) \<noteq> 0 \<and> num_online_cpus k \<ge> max_cpu_lock (tuners g))"
    and no_bypass: "\<not> up_bypass k g"
    and rate: "0 < cpu_up_rate (tuners g)" "cpu_up_rate (tuners g) \<le> MAX_HOTPLUG_RATE"
    and hist: "num_hist (hotplug_history g) \<le> MAX_HOTPLUG_RATE"
  shows "check_up k g =
     Some (spec_up_rule k g,
           if spec_up_rule k g then g\<lparr>hotplug_history := (hotplug_history g)\<lparr>num_hist := 0\<rparr>\<rparr>
           else g)"
  using assms by (rule check_up_by_history)

text \<open>
  Two of four cores online, \<^verbatim>\<open>cpu_up_rate\<close> = 2, no locks, four samples in the
  history, the last two at 800 and 700 MHz with run-queue averages 250 and 300:
  against the thresholds 500 MHz and 200 of the second row the rule fires and the
  count is reset.
\<close>

theorem check_up_history_rule_witness:
  "check_up (sample_kernel (sample_policy 800000) 2 30000 15000)
     ((sample_gov (zero_info (sample_policy 800000)))
        \<lparr>tuners := (recalculate_freq_limits 4 (sample_policy 800000) (dbs_tuners_ins 200))
                     \<lparr>min_cpu_lock := 0, cpu_up_rate := 2\<rparr>,
         hotplug_history :=
           \<lparr>usage = (\<lambda>_. zero_usage)
              (0 := zero_usage\<lparr>freq := 200000, rq_avg := 50\<rparr>,
               1 := zero_usage\<lparr>freq := 200000, rq_avg := 50\<rparr>,
               2 := zero_usage\<lparr>freq := 800000, rq_avg := 250\<rparr>,
               3 := zero_usage\<lparr>freq := 700000, rq_avg := 300\<rparr>),
            num_hist = 4\<rparr>\<rparr>)
   = Some (True,
     (sample_gov (zero_info (sample_policy 800000)))
        \<lparr>tuners := (recalculate_freq_limits 4 (sample_policy 800000) (dbs_tuners_ins 200))
                     \<lparr>min_cpu_lock := 0, cpu_up_rate := 2\<rparr>,
         hotplug_history :=
           \<lparr>usage = (\<lambda>_. zero_usage)
              (0 := zero_usage\<lparr>freq := 200000, rq_avg := 50\<rparr>,
               1 := zero_usage\<lparr>freq := 200000, rq_avg := 50\<rparr>,
               2 := zero_usage\<lparr>freq := 800000, rq_avg := 250\<rparr>,
               3 := zero_usage\<lparr>freq := 700000, rq_avg := 300\<rparr>),
            num_hist = 0\<rparr>\<rparr>)"
proof -
  let ?k = "sample_kernel (sample_policy 800000) 2 30000 15000"
  let ?u = "(\<lambda>_. zero_usage)
              (0 := zero_usage\<lparr>freq := 200000, rq_avg := 50\<rparr>,
               1 := zero_usage\<lparr>freq := 200000, rq_avg := 50\<rparr>,
               2 := zero_usage\<lparr>freq := 800000, rq_avg := 250\<rparr>,
               3 := zero_usage\<lparr>freq := 700000, rq_avg := 300\<rparr>)"
  let ?g = "(sample_gov (zero_info (sample_policy 800000)))
        \<lparr>tuners := (recalculate_freq_limits 4 (sample_policy 800000) (dbs_tuners_ins 200))
                     \<lparr>min_cpu_lock := 0, cpu_up_rate := 2\<rparr>,
         hotplug_history := \<lparr>usage = ?u, num_hist = 4\<rparr>\<rparr>"
  have a: "length (hotplug_freq ?g) = 4" "length (hotplug_rq ?g) = 4"
    "0 < num_online_cpus ?k" "num_online_cpus ?k \<le> 4"
    by (simp_all add: sample_defs)
  have b: "num_online_cpus ?k \<noteq> num_possible_cpus ?k" by (simp add: sample_defs)
  have c: "\<not> (max_cpu_lock (tuners ?g) \<noteq> 0 \<and> num_online_cpus ?k \<ge> max_cpu_lock (tuners ?g))"
    by (simp add: sample_defs)
  have d: "\<not> up_bypass ?k ?g" by (simp add: up_bypass_def sample_defs)
  have e: "0 < cpu_up_rate (tuners ?g)" "cpu_up_rate (tuners ?g) \<le> MAX_HOTPLUG_RATE"
    "num_hist (hotplug_history ?g) \<le> MAX_HOTPLUG_RATE"
    by (simp_all add: sample_defs MAX_HOTPLUG_RATE_def)
  have w: "{unat (4 :: u32) - unat (2 :: u32) ..< unat (4 :: u32)} = {2, 3}" by auto
  have s: "spec_up_rule ?k ?g"
    by (simp add: spec_up_rule_def Let_def sample_defs w)
  from check_up_history_rule [OF a b c d e] s show ?thesis by simp
qed

section \<open>The requested frequency and the limits of the policy\<close>

subsection \<open>Ticks that leave the limits\<close>


text \<open>
  The input boost leaves the limits on the other side.  The policy's upper limit has
  been lowered to 600 MHz (limits 200 MHz and 600 MHz) after \<^verbatim>\<open>input_boost_freq\<close> was
  set to 800 MHz, with \<^verbatim>\<open>input_boost_us\<close> 500000 and an input event 100 ms before the
  tick; the hardware runs at 600 MHz and \<^verbatim>\<open>requested_freq\<close> is 600 MHz.  The tick sets
  \<^verbatim>\<open>requested_freq\<close> to the boost frequency and returns (lines 1400--1407), without a
  comparison with \<^verbatim>\<open>policy->max\<close>.
\<close>

lemma boost_step_above_policy_max:
  "requested_within 0
      ((sample_gov ((zero_info ((sample_policy 600000)\<lparr>pol_max := 600000\<rparr>))
         \<lparr>requested_freq := 600000\<rparr>))
         \<lparr>tuners := recalculate_freq_limits 4 ((sample_policy 600000)\<lparr>pol_max := 600000\<rparr>)
              ((dbs_tuners_ins 200)\<lparr>input_boost_freq := 800000, input_boost_us := 500000\<rparr>),
           last_input_time := 1900000\<rparr>)
   \<and> map_option (\<lambda>g'. (requested_freq (cs_cpu_dbs_info g' 0),
                        pol_max (cur_policy (cs_cpu_dbs_info g' 0)),
                        requested_within 0 g', driver_target g'))
      (dbs_check_cpu (sample_kernel ((sample_policy 600000)\<lparr>pol_max := 600000\<rparr>) 4 30000 0) 0
         ((sample_gov ((zero_info ((sample_policy 600000)\<lparr>pol_max := 600000\<rparr>))
            \<lparr>requested_freq := 600000\<rparr>))
            \<lparr>tuners := recalculate_freq_limits 4 ((sample_policy 600000)\<lparr>pol_max := 600000\<rparr>)
                 ((dbs_tuners_ins 200)\<lparr>input_boost_freq := 800000, input_boost_us := 500000\<rparr>),
              last_input_time := 1900000\<rparr>))
      = Some (800000, 600000, False, [(800000, CPUFREQ_RELATION_H)])"
proof -
  let ?p = "(sample_policy 600000)\<lparr>pol_max := 600000\<rparr>"
  let ?g = "(sample_gov ((zero_info ?p)\<lparr>requested_freq := 600000\<rparr>))
         \<lparr>tuners := recalculate_freq_limits 4 ?p
              ((dbs_tuners_ins 200)\<lparr>input_boost_freq := 800000, input_boost_us := 500000\<rparr>),
           last_input_time := 1900000\<rparr>"
  have "requested_within 0 ?g"
    by (simp add: requested_within_def freq_validated_def sample_defs)
  moreover have "map_option (\<lambda>g'. (requested_freq (cs_cpu_dbs_info g' 0),
                        pol_max (cur_policy (cs_cpu_dbs_info g' 0)),
                        requested_within 0 g', driver_target g'))
      (dbs_check_cpu (sample_kernel ?p 4 30000 0) 0 ?g)
      = Some (800000, 600000, False, [(800000, CPUFREQ_RELATION_H)])"
    by (simp add: tick_defs sample_defs requested_within_def freq_validated_def Let_def)
  ultimately show ?thesis by blast
qed

subsection \<open>The decision state before the frequency logic\<close>

lemma cpu_sample_decision [simp]:
  "decision_fields (snd (snd (cpu_sample k active boosted g j))) = decision_fields (cs_cpu_dbs_info g j)"
  by (simp add: cpu_sample_def decision_fields_def Let_def)

lemma load_one_decision:
  "decision_fields (cs_cpu_dbs_info (fst (load_one k c i d active boosted j gm)) c')
     = decision_fields (cs_cpu_dbs_info (fst gm) c')"
proof -
  have u: "\<And>f g. decision_fields (f\<lparr>oc_boost_cycles := g\<rparr>) = decision_fields f"
    by (simp add: decision_fields_def)
  show ?thesis
    by (cases gm) (auto simp: load_one_def upd_this_def Let_def u)
qed

lemma load_fold_decision:
  "decision_fields (cs_cpu_dbs_info (fst (fold (load_one k c i d active boosted) js gm)) c')
     = decision_fields (cs_cpu_dbs_info (fst gm) c')"
  by (induction js arbitrary: gm) (simp_all add: load_one_decision)

lemma load_loop_decision:
  "decision_fields (cs_cpu_dbs_info (fst (load_loop k c i p active boosted g)) c')
     = decision_fields (cs_cpu_dbs_info g c')"
  by (simp add: load_loop_def load_fold_decision)

lemma tick_delay_frame:
  "delay (snd (history_push p g)) = delay g"
  "delay (fst (load_one k c i d active boosted j gm)) = delay (fst gm)"
  by (simp add: history_push_def Let_def)
     (cases gm; simp add: load_one_def upd_this_def Let_def)

lemma load_fold_delay:
  "delay (fst (fold (load_one k c i d active boosted) js gm)) = delay (fst gm)"
  by (induction js arbitrary: gm) (simp_all add: tick_delay_frame)

lemma load_loop_delay: "delay (fst (load_loop k c i p active boosted g)) = delay g"
  by (simp add: load_loop_def load_fold_delay)

lemma hotplug_check_frame:
  assumes "hotplug_check k c g = Some g'"
  shows "cs_cpu_dbs_info g' = cs_cpu_dbs_info g \<and> tuners g' = tuners g \<and> standby g' = standby g
     \<and> suspend g' = suspend g \<and> delay g' = delay g \<and> driver_target g' = driver_target g"
proof -
  from assms obtain up g1 where u: "check_up k g = Some (up, g1)"
    by (auto simp: hotplug_check_def Let_def split: option.splits)
  from check_up_frame [OF u] have f1: "cs_cpu_dbs_info g1 = cs_cpu_dbs_info g \<and> tuners g1 = tuners g
     \<and> standby g1 = standby g \<and> suspend g1 = suspend g \<and> delay g1 = delay g
     \<and> driver_target g1 = driver_target g" by auto
  show ?thesis
  proof (cases up)
    case True
    with assms u f1 show ?thesis
      by (auto simp: hotplug_check_def queue_work_on_def Let_def split: if_splits)
  next
    case False
    with assms u obtain down g2 where d: "check_down k g1 = Some (down, g2)"
      by (auto simp: hotplug_check_def Let_def split: option.splits)
    from check_down_frame [OF d] f1 have "cs_cpu_dbs_info g2 = cs_cpu_dbs_info g \<and> tuners g2 = tuners g
     \<and> standby g2 = standby g \<and> suspend g2 = suspend g \<and> delay g2 = delay g
     \<and> driver_target g2 = driver_target g" by auto
    with assms u d False show ?thesis
      by (auto simp: hotplug_check_def queue_work_on_def Let_def split: if_splits)
  qed
qed

text \<open>
  A tick is the frequency logic run on globals that agree with the ones at the entry
  of the tick in the tunables, the mode flags, \<^verbatim>\<open>delay\<close> and the decision fields of
  every CPU.
\<close>

lemma dbs_check_cpu_freq_logic:
  assumes "dbs_check_cpu k c g = Some g'"
  shows "\<exists>g3 m. freq_logic k c (cur_policy (cs_cpu_dbs_info g c)) (is_boosted (ktime_us k) g)
                 (is_active g) m g3 = Some g'
     \<and> decision_fields (cs_cpu_dbs_info g3 c) = decision_fields (cs_cpu_dbs_info g c)
     \<and> tuners g3 = tuners g \<and> standby g3 = standby g \<and> suspend g3 = suspend g
     \<and> delay g3 = delay g"
proof -
  let ?p = "cur_policy (cs_cpu_dbs_info g c)"
  let ?pushed = "history_push ?p g"
  let ?loaded = "load_loop k c (fst ?pushed) ?p (is_active g) (is_boosted (ktime_us k) g) (snd ?pushed)"
  from assms obtain g3 where h: "hotplug_check k c (fst ?loaded) = Some g3"
    and f: "freq_logic k c ?p (is_boosted (ktime_us k) g) (is_active g) (snd ?loaded) g3 = Some g'"
    by (auto simp: dbs_check_cpu_def Let_def split: option.splits)
  have "decision_fields (cs_cpu_dbs_info (fst ?loaded) c) = decision_fields (cs_cpu_dbs_info g c)"
    by (simp add: load_loop_decision history_push_frame)
  moreover have "tuners (fst ?loaded) = tuners g" "standby (fst ?loaded) = standby g"
    "suspend (fst ?loaded) = suspend g" "delay (fst ?loaded) = delay g"
    by (simp_all add: load_loop_frame history_push_frame load_loop_delay tick_delay_frame)
  ultimately show ?thesis using hotplug_check_frame [OF h] f by auto
qed

subsection \<open>The frequency logic with the tunables within the limits\<close>

lemma validated_suspend_hard:
  assumes "tunables_validated p t" "pol_min p \<le> pol_max p"
  shows "pol_min p \<le> i_suspend_max_freq_hard t"
proof -
  from assms(1) have e: "i_suspend_max_freq_hard t = i_suspend_max_freq_hard (recalculate_freq_limits 0 p t)"
    and v: "max_non_oc_freq t = 0 \<or> freq_validated p (max_non_oc_freq t)"
      "power_optimal_freq t = 0 \<or> freq_validated p (power_optimal_freq t)"
      "suspend_max_freq t = 0 \<or> freq_validated p (suspend_max_freq t)"
    by (simp_all add: tunables_validated_def)
  from v assms(2) have "pol_min p \<le> i_suspend_max_freq_hard (recalculate_freq_limits 0 p t)"
    by (auto simp: recalculate_freq_limits_def Let_def freq_validated_def)
  with e show ?thesis by simp
qed

lemma input_boost_returns:
  assumes "input_boost c p boosted g = Inl g'"
    and "tunables_validated p (tuners g)" and "pol_min p \<le> cur p" and "cur p \<le> pol_max p"
  shows "freq_validated p (requested_freq (cs_cpu_dbs_info g' c))"
proof -
  from assms(2) have v: "input_boost_freq (tuners g) = 0 \<or> freq_validated p (input_boost_freq (tuners g))"
      "max_non_oc_freq (tuners g) = 0 \<or> freq_validated p (max_non_oc_freq (tuners g))"
    by (simp_all add: tunables_validated_def)
  from assms(1) obtain ft where ft: "cur p < ft"
      "ft = pol_max p \<or> (ft = max_non_oc_freq (tuners g) \<and> max_non_oc_freq (tuners g) \<noteq> 0)
        \<or> ft = input_boost_freq (tuners g)"
      "requested_freq (cs_cpu_dbs_info g' c) = ft"
    by (auto simp: input_boost_def Let_def split: if_splits)
  from ft(1) assms(3) have lo: "pol_min p \<le> ft" by simp
  from ft(1) have "ft \<noteq> 0" by (auto simp: word_gt_0)
  with ft(2) v have "ft \<le> pol_max p" by (auto simp: freq_validated_def)
  with lo ft(3) show ?thesis by (simp add: freq_validated_def)
qed

lemma hard_limit_within:
  assumes "input_boost c p boosted g = Inr lim"
    and "tunables_validated p (tuners g)" and "pol_min p \<le> pol_max p"
  shows "freq_validated p (clamp_hard p (fst (turbo_limits c active g lim)))"
proof -
  from assms(2) have v: "max_non_oc_freq (tuners g) = 0 \<or> freq_validated p (max_non_oc_freq (tuners g))"
    by (simp add: tunables_validated_def)
  note s = validated_suspend_hard [OF assms(2,3)]
  from assms(1) have "fst lim = pol_max p
      \<or> (fst lim = max_non_oc_freq (tuners g) \<and> max_non_oc_freq (tuners g) \<noteq> 0)
      \<or> fst lim = i_suspend_max_freq_hard (tuners g)"
    by (auto simp: input_boost_def Let_def split: if_splits)
  with v s assms(3) have l: "pol_min p \<le> fst lim" by (auto simp: freq_validated_def)
  have "fst (turbo_limits c active g lim) = fst lim
      \<or> (fst (turbo_limits c active g lim) = max_non_oc_freq (tuners g)
          \<and> max_non_oc_freq (tuners g) \<noteq> 0)"
    by (cases lim) (auto simp: turbo_limits_def Let_def)
  with v l have "pol_min p \<le> fst (turbo_limits c active g lim)"
    by (auto simp: freq_validated_def)
  with assms(3) show ?thesis by (auto simp: clamp_hard_def freq_validated_def)
qed

lemma freq_increase_within:
  assumes "freq_validated p (requested_freq (cs_cpu_dbs_info g c))"
    and "lookup_within p (table_target k)"
  shows "freq_validated p (requested_freq (cs_cpu_dbs_info (freq_increase k c p hard soft g) c))"
proof -
  from assms(2) have "pol_min p \<le> table_target k CPUFREQ_RELATION_L (cur p + 1)"
    by (simp add: lookup_within_def freq_validated_def)
  moreover from assms(1) have "pol_min p \<le> pol_max p" by (auto simp: freq_validated_def)
  ultimately show ?thesis using assms(1)
    by (auto simp: freq_increase_def Let_def freq_validated_def)
qed

lemma standby_activation_decision:
  "requested_freq (cs_cpu_dbs_info (snd (standby_activation c p boosted active g)) c)
     = requested_freq (cs_cpu_dbs_info g c)"
  "freq_lo (cs_cpu_dbs_info (snd (standby_activation c p boosted active g)) c)
     = freq_lo (cs_cpu_dbs_info g c)"
  "tuners (snd (standby_activation c p boosted active g)) = tuners g"
  by (simp_all add: standby_activation_def Let_def)

lemma freq_decrease_within:
  assumes "freq_decrease k c p boosted active m g = Some g'"
    and "freq_validated p (requested_freq (cs_cpu_dbs_info g c))"
    and "freq_lo (cs_cpu_dbs_info g c) \<le> pol_max p"
    and "lookup_within p (table_target k)"
  shows "freq_validated p (requested_freq (cs_cpu_dbs_info g' c))"
proof -
  let ?msf = "table_target k CPUFREQ_RELATION_L
     (requested_freq (cs_cpu_dbs_info g c) * m div
        (up_threshold (tuners g) - down_differential (tuners g)))"
  from assms(4) have t: "pol_min p \<le> ?msf" "?msf \<le> pol_max p"
    by (simp_all add: lookup_within_def freq_validated_def)
  from assms(2) have mm: "pol_min p \<le> pol_max p" by (auto simp: freq_validated_def)
  from assms(1) have "requested_freq (cs_cpu_dbs_info g' c) = requested_freq (cs_cpu_dbs_info g c)
     \<or> requested_freq (cs_cpu_dbs_info g' c)
          = (if freq_lo (cs_cpu_dbs_info g c) < pol_min p then pol_min p else freq_lo (cs_cpu_dbs_info g c))
     \<or> requested_freq (cs_cpu_dbs_info g' c) = (if ?msf < pol_min p then pol_min p else ?msf)"
    by (auto simp: freq_decrease_def Let_def split: if_splits)
  with assms(2,3) t mm show ?thesis by (auto simp: freq_validated_def)
qed

lemma freq_logic_within:
  assumes run: "freq_logic k c p boosted active m g = Some g'"
    and req: "freq_validated p (requested_freq (cs_cpu_dbs_info g c))"
    and lo: "freq_lo (cs_cpu_dbs_info g c) \<le> pol_max p"
    and tun: "tunables_validated p (tuners g)"
    and pol: "pol_min p \<le> cur p" "cur p \<le> pol_max p"
    and tab: "lookup_within p (table_target k)"
  shows "freq_validated p (requested_freq (cs_cpu_dbs_info g' c))"
proof (cases "input_boost c p boosted g")
  case (Inl a)
  with run have "a = g'" by (simp add: freq_logic_def)
  with Inl input_boost_returns [OF _ tun pol] show ?thesis by simp
next
  case (Inr lim)
  from pol have mm: "pol_min p \<le> pol_max p" by simp
  let ?hard = "clamp_hard p (fst (turbo_limits c active g lim))"
  note h = hard_limit_within [OF Inr tun mm, of active]
  show ?thesis
  proof (cases "requested_freq (cs_cpu_dbs_info g c) > ?hard")
    case True
    with run Inr have "requested_freq (cs_cpu_dbs_info g' c) = ?hard"
      by (auto simp: freq_logic_def Let_def)
    with h show ?thesis by simp
  next
    case False
    show ?thesis
    proof (cases "m > (if active then up_threshold (tuners g) else 99)")
      case True
      with run Inr False have "g' = freq_increase k c p ?hard (snd (turbo_limits c active g lim)) g"
        by (auto simp: freq_logic_def Let_def)
      with freq_increase_within [OF req tab] show ?thesis by simp
    next
      case low: False
      let ?sa = "standby_activation c p boosted active g"
      from run Inr False low have "(fst ?sa \<and> g' = snd ?sa)
          \<or> freq_decrease k c p boosted active m (snd ?sa) = Some g'"
        by (auto simp: freq_logic_def Let_def split: if_splits)
      then show ?thesis
      proof
        assume "fst ?sa \<and> g' = snd ?sa"
        with req show ?thesis by (simp add: standby_activation_decision)
      next
        assume d: "freq_decrease k c p boosted active m (snd ?sa) = Some g'"
        from freq_decrease_within [OF d] req lo tab show ?thesis
          by (simp add: standby_activation_decision)
      qed
    qed
  qed
qed

subsection \<open>The tick is defined\<close>

lemma check_down_loop_Some:
  "0 \<le> lo \<Longrightarrow> i < 40 \<Longrightarrow> \<exists>r. check_down_loop h i lo a b = Some r"
proof (induction h i lo a b rule: check_down_loop.induct)
  case (1 h i lo a b)
  show ?case
  proof (cases "lo \<le> i")
    case True
    with "1.prems" have range: "\<not> (i < 0 \<or> i \<ge> uint MAX_HOTPLUG_RATE)"
      by (simp add: MAX_HOTPLUG_RATE_def)
    from "1.IH" [OF True range] "1.prems" True range show ?thesis
      by (subst check_down_loop.simps) simp
  next
    case False
    then show ?thesis by (subst check_down_loop.simps) simp
  qed
qed

lemma check_up_defined:
  assumes rows: "rows_present k g"
    and rate: "0 < cpu_up_rate (tuners g)" "cpu_up_rate (tuners g) \<le> MAX_HOTPLUG_RATE"
    and hist: "num_hist (hotplug_history g) \<le> MAX_HOTPLUG_RATE"
  shows "\<exists>r. check_up k g = Some r"
proof (cases "num_online_cpus k = num_possible_cpus k
    \<or> (max_cpu_lock (tuners g) \<noteq> 0 \<and> num_online_cpus k \<ge> max_cpu_lock (tuners g))
    \<or> up_bypass k g")
  case True
  from rows have fr: "table_row (hotplug_freq g) (sint (num_online_cpus k) - 1)
        = Some (hotplug_freq g ! (unat (num_online_cpus k) - 1))"
    and rr: "table_row (hotplug_rq g) (sint (num_online_cpus k) - 1)
        = Some (hotplug_rq g ! (unat (num_online_cpus k) - 1))"
    by (simp_all add: rows_present_def table_row_online)
  from True show ?thesis
    by (auto simp: check_up_def Let_def fr rr up_bypass_def)
next
  case False
  with check_up_by_history [of g k] rows rate hist show ?thesis
    by (simp add: rows_present_def)
qed

lemma check_down_defined:
  assumes rows: "rows_present k g"
    and rate: "0 < cpu_down_rate (tuners g)" "cpu_down_rate (tuners g) \<le> MAX_HOTPLUG_RATE"
    and hist: "num_hist (hotplug_history g) \<le> MAX_HOTPLUG_RATE"
  shows "\<exists>r. check_down k g = Some r"
proof -
  let ?h = "hotplug_history g"
  let ?n = "unat (num_hist ?h)"
  let ?r = "unat (cpu_down_rate (tuners g))"
  from rows have fr: "table_row (hotplug_freq g) (sint (num_online_cpus k) - 1)
        = Some (hotplug_freq g ! (unat (num_online_cpus k) - 1))"
    and rr: "table_row (hotplug_rq g) (sint (num_online_cpus k) - 1)
        = Some (hotplug_rq g ! (unat (num_online_cpus k) - 1))"
    by (simp_all add: rows_present_def table_row_online)
  have n: "sint (num_hist ?h) = int ?n"
    using hist by (intro sint_small) (simp add: MAX_HOTPLUG_RATE_def)
  have r: "sint (cpu_down_rate (tuners g)) = int ?r"
    using rate(2) by (intro sint_small) (simp add: MAX_HOTPLUG_RATE_def)
  have rpos: "0 < ?r" using rate(1) by (simp add: word_less_nat_alt)
  have n40: "?n \<le> 40" using hist by (simp add: MAX_HOTPLUG_RATE_def word_le_nat_alt)
  show ?thesis
  proof (cases "?n \<noteq> 0 \<and> ?n mod ?r = 0")
    case True
    then have "?r dvd ?n" "0 < ?n" by auto
    then have "?r \<le> ?n" by (simp add: dvd_imp_le)
    then have "0 \<le> int ?n - int ?r" "int ?n - 1 < 40" using n40
      by (simp_all del: of_nat_unat)
    from check_down_loop_Some [OF this, of ?h 0 0] show ?thesis
      using rpos
      by (auto simp: check_down_def Let_def fr rr n r smod_nat simp del: of_nat_unat)
  next
    case False
    then show ?thesis using rpos
      by (auto simp: check_down_def Let_def fr rr n r smod_nat simp del: of_nat_unat)
  qed
qed

lemma history_push_count:
  "num_hist (hotplug_history (snd (history_push p g))) \<le> MAX_HOTPLUG_RATE"
proof -
  have "\<And>x :: u32. x < 40 \<Longrightarrow> x + 1 \<le> 40" by unat_arith
  then show ?thesis
    by (auto simp: history_push_def Let_def MAX_HOTPLUG_RATE_def not_le)
qed

lemma hotplug_check_defined:
  assumes rows: "rows_present k g"
    and up: "0 < cpu_up_rate (tuners g)" "cpu_up_rate (tuners g) \<le> MAX_HOTPLUG_RATE"
    and down: "0 < cpu_down_rate (tuners g)" "cpu_down_rate (tuners g) \<le> MAX_HOTPLUG_RATE"
    and hist: "num_hist (hotplug_history g) \<le> MAX_HOTPLUG_RATE"
  shows "\<exists>g'. hotplug_check k c g = Some g'"
proof -
  from check_up_defined [OF rows up hist] obtain u g1 where u: "check_up k g = Some (u, g1)"
    by auto
  show ?thesis
  proof (cases u)
    case True
    with u show ?thesis by (simp add: hotplug_check_def Let_def)
  next
    case False
    from check_up_frame [OF u] have "g1 = g \<or> g1 = g\<lparr>hotplug_history := (hotplug_history g)\<lparr>num_hist := 0\<rparr>\<rparr>" .
    then have "rows_present k g1" "tuners g1 = tuners g"
      "num_hist (hotplug_history g1) \<le> MAX_HOTPLUG_RATE"
      using rows hist by (auto simp: rows_present_def)
    with check_down_defined [of k g1] down obtain d g2 where "check_down k g1 = Some (d, g2)"
      by auto
    with u False show ?thesis by (simp add: hotplug_check_def Let_def)
  qed
qed

lemma freq_logic_defined:
  assumes "threshold_invariant (tuners g)"
  shows "\<exists>g'. freq_logic k c p boosted active m g = Some g'"
proof -
  from assms have "up_threshold (tuners g) - down_differential (tuners g) \<noteq> 0"
    by (auto simp: threshold_invariant_def)
  then have "\<And>g0. tuners g0 = tuners g \<Longrightarrow> \<exists>g'. freq_decrease k c p boosted active m g0 = Some g'"
    by (simp add: freq_decrease_def Let_def)
  from this [of "snd (standby_activation c p boosted active g)"]
  show ?thesis
    by (cases "input_boost c p boosted g")
       (auto simp: freq_logic_def Let_def standby_activation_decision)
qed

lemma dbs_check_cpu_defined:
  assumes rows: "rows_present k g"
    and tun: "tunables_validated (cur_policy (cs_cpu_dbs_info g c)) (tuners g)"
  shows "\<exists>g'. dbs_check_cpu k c g = Some g'"
proof -
  let ?p = "cur_policy (cs_cpu_dbs_info g c)"
  let ?pushed = "history_push ?p g"
  let ?loaded = "load_loop k c (fst ?pushed) ?p (is_active g) (is_boosted (ktime_us k) g) (snd ?pushed)"
  have t: "tuners (fst ?loaded) = tuners g"
    by (simp add: load_loop_frame history_push_frame)
  have "rows_present k (fst ?loaded)"
    using rows by (simp add: rows_present_def load_loop_frame history_push_frame)
  moreover have "num_hist (hotplug_history (fst ?loaded)) \<le> MAX_HOTPLUG_RATE"
    by (simp add: load_loop_frame history_push_count)
  ultimately obtain g3 where h: "hotplug_check k c (fst ?loaded) = Some g3"
    using hotplug_check_defined [of k "fst ?loaded" c] tun t
    by (auto simp: tunables_validated_def)
  from hotplug_check_frame [OF h] t tun have "threshold_invariant (tuners g3)"
    by (simp add: tunables_validated_def)
  from freq_logic_defined [OF this] h show ?thesis
    by (simp add: dbs_check_cpu_def Let_def)
qed

subsection \<open>A tick with the tunables within the limits\<close>

lemma freq_logic_keeps:
  assumes "freq_logic k c p boosted active m g = Some g'"
  shows "cur_policy (cs_cpu_dbs_info g' c) = cur_policy (cs_cpu_dbs_info g c)
     \<and> freq_lo (cs_cpu_dbs_info g' c) = freq_lo (cs_cpu_dbs_info g c)
     \<and> tuners g' = tuners g"
proof (cases "input_boost c p boosted g")
  case (Inl a)
  then have "cur_policy (cs_cpu_dbs_info a c) = cur_policy (cs_cpu_dbs_info g c)
     \<and> freq_lo (cs_cpu_dbs_info a c) = freq_lo (cs_cpu_dbs_info g c) \<and> tuners a = tuners g"
    by (auto simp: input_boost_def Let_def split: if_splits)
  with assms Inl show ?thesis by (simp add: freq_logic_def)
next
  case (Inr lim)
  have inc: "\<And>h s. cur_policy (cs_cpu_dbs_info (freq_increase k c p h s g) c) = cur_policy (cs_cpu_dbs_info g c)
     \<and> freq_lo (cs_cpu_dbs_info (freq_increase k c p h s g) c) = freq_lo (cs_cpu_dbs_info g c)
     \<and> tuners (freq_increase k c p h s g) = tuners g"
    by (simp add: freq_increase_def Let_def)
  let ?sa = "snd (standby_activation c p boosted active g)"
  have sa: "cur_policy (cs_cpu_dbs_info ?sa c) = cur_policy (cs_cpu_dbs_info g c)
     \<and> freq_lo (cs_cpu_dbs_info ?sa c) = freq_lo (cs_cpu_dbs_info g c) \<and> tuners ?sa = tuners g"
    by (simp add: standby_activation_def Let_def)
  have dec: "\<And>g0 g1. freq_decrease k c p boosted active m g0 = Some g1 \<Longrightarrow>
     cur_policy (cs_cpu_dbs_info g1 c) = cur_policy (cs_cpu_dbs_info g0 c)
     \<and> freq_lo (cs_cpu_dbs_info g1 c) = freq_lo (cs_cpu_dbs_info g0 c) \<and> tuners g1 = tuners g0"
    by (auto simp: freq_decrease_def Let_def split: if_splits)
  from assms Inr show ?thesis
    using inc sa dec [of ?sa g']
    by (auto simp: freq_logic_def Let_def split: if_splits)
qed

text \<open>
  Where the tick does stay within the limits: when every frequency tunable is 0 or
  within the current limits of the policy, the suspend and standby limits are those
  \<^verbatim>\<open>recalculate_freq_limits\<close> computes for it, \<^verbatim>\<open>policy->cur\<close> and \<^verbatim>\<open>requested_freq\<close>
  are within the limits at the entry and \<^verbatim>\<open>freq_lo\<close> is at most \<^verbatim>\<open>policy->max\<close>, the
  tick returns with the requested frequency within the limits, on every path.  The
  two ticks above are outside these conditions: there \<^verbatim>\<open>max_non_oc_freq\<close> is below
  \<^verbatim>\<open>policy->min\<close>, and \<^verbatim>\<open>input_boost_freq\<close> is above \<^verbatim>\<open>policy->max\<close>.
\<close>

lemma tick_keeps_within:
  assumes rows: "rows_present k g"
    and tun: "tunables_validated (cur_policy (cs_cpu_dbs_info g c)) (tuners g)"
    and pol: "freq_validated (cur_policy (cs_cpu_dbs_info g c)) (cur (cur_policy (cs_cpu_dbs_info g c)))"
    and req: "requested_within c g"
    and lo: "freq_lo (cs_cpu_dbs_info g c) \<le> pol_max (cur_policy (cs_cpu_dbs_info g c))"
    and tab: "lookup_within (cur_policy (cs_cpu_dbs_info g c)) (table_target k)"
  shows "\<exists>g'. dbs_check_cpu k c g = Some g' \<and> requested_within c g'
     \<and> cur_policy (cs_cpu_dbs_info g' c) = cur_policy (cs_cpu_dbs_info g c)
     \<and> freq_lo (cs_cpu_dbs_info g' c) = freq_lo (cs_cpu_dbs_info g c)
     \<and> tuners g' = tuners g"
proof -
  let ?p = "cur_policy (cs_cpu_dbs_info g c)"
  from dbs_check_cpu_defined [OF rows tun] obtain g' where run: "dbs_check_cpu k c g = Some g'"
    by blast
  from dbs_check_cpu_freq_logic [OF run] obtain g3 m where
    f: "freq_logic k c ?p (is_boosted (ktime_us k) g) (is_active g) m g3 = Some g'"
    and d: "decision_fields (cs_cpu_dbs_info g3 c) = decision_fields (cs_cpu_dbs_info g c)"
    and t: "tuners g3 = tuners g" by blast
  from d have same: "cur_policy (cs_cpu_dbs_info g3 c) = ?p"
    "requested_freq (cs_cpu_dbs_info g3 c) = requested_freq (cs_cpu_dbs_info g c)"
    "freq_lo (cs_cpu_dbs_info g3 c) = freq_lo (cs_cpu_dbs_info g c)"
    by (simp_all add: decision_fields_def)
  from req have r3: "freq_validated ?p (requested_freq (cs_cpu_dbs_info g3 c))"
    by (simp add: requested_within_def same)
  from pol have pp: "pol_min ?p \<le> cur ?p" "cur ?p \<le> pol_max ?p"
    by (simp_all add: freq_validated_def)
  have "freq_validated ?p (requested_freq (cs_cpu_dbs_info g' c))"
    using f r3 _ _ pp tab
    by (rule freq_logic_within) (simp_all add: same lo t tun)
  with freq_logic_keeps [OF f] same t run show ?thesis
    by (simp add: requested_within_def)
qed

subsection \<open>The sample platform satisfies the hypotheses\<close>

lemma fold_min_in: "fold min xs (a :: u32) \<in> insert a (set xs)"
  by (induction xs arbitrary: a) (auto simp: min_def)

lemma fold_max_in: "fold max xs (a :: u32) \<in> insert a (set xs)"
  by (induction xs arbitrary: a) (auto simp: max_def)

lemma freq_table_target_within:
  assumes "\<exists>f\<in>set table. freq_validated p f"
  shows "freq_validated p (freq_table_target table p rel target)"
proof -
  define valid where "valid = filter (\<lambda>f. pol_min p \<le> f \<and> f \<le> pol_max p) table"
  define above where "above = filter (\<lambda>f. f \<ge> target) valid"
  define below where "below = filter (\<lambda>f. f \<le> target) valid"
  have eq: "freq_table_target table p rel target =
     (case rel of
        CPUFREQ_RELATION_L \<Rightarrow>
          (if above \<noteq> [] then fold min above (hd above)
           else if below \<noteq> [] then fold max below (hd below) else 0)
      | CPUFREQ_RELATION_H \<Rightarrow>
          (if below \<noteq> [] then fold max below (hd below)
           else if above \<noteq> [] then fold min above (hd above) else 0))"
    by (cases rel) (simp_all add: freq_table_target_def Let_def valid_def above_def below_def)
  from assms obtain f where f: "f \<in> set valid" by (auto simp: freq_validated_def valid_def)
  then have "f \<in> set above \<or> f \<in> set below" by (auto simp: above_def below_def)
  then have ne: "above \<noteq> [] \<or> below \<noteq> []" by auto
  have a: "fold min above (hd above) \<in> set valid" if "above \<noteq> []"
  proof -
    from that have "hd above \<in> set above" by (rule hd_in_set)
    with fold_min_in [of above "hd above"] have "fold min above (hd above) \<in> set above"
      by auto
    then show ?thesis by (simp add: above_def)
  qed
  have b: "fold max below (hd below) \<in> set valid" if "below \<noteq> []"
  proof -
    from that have "hd below \<in> set below" by (rule hd_in_set)
    with fold_max_in [of below "hd below"] have "fold max below (hd below) \<in> set below"
      by auto
    then show ?thesis by (simp add: below_def)
  qed
  have "freq_table_target table p rel target \<in> set valid"
    unfolding eq using ne a b by (cases rel) auto
  then show ?thesis by (simp add: freq_validated_def valid_def)
qed

lemma sample_lookup_within:
  "lookup_within (sample_policy f) (table_target (sample_kernel (sample_policy f) n w i))"
proof -
  have "\<exists>x\<in>set sample_freqs. freq_validated (sample_policy f) x"
    by (simp add: sample_freqs_def sample_policy_def freq_validated_def)
  then show ?thesis
    by (simp add: lookup_within_def sample_kernel_def freq_table_target_within)
qed

text \<open>
  On the sample platform a fully loaded tick of CPU 0 at 200 MHz meets the
  hypotheses, takes the increase path and requests the next step, 300 MHz.
\<close>

lemma tick_keeps_within_example:
  "rows_present (sample_kernel (sample_policy 200000) 4 30000 0)
      (sample_gov ((zero_info (sample_policy 200000))\<lparr>requested_freq := 200000\<rparr>))
   \<and> requested_within 0 (sample_gov ((zero_info (sample_policy 200000))\<lparr>requested_freq := 200000\<rparr>))
   \<and> (\<exists>g'. dbs_check_cpu (sample_kernel (sample_policy 200000) 4 30000 0) 0
             (sample_gov ((zero_info (sample_policy 200000))\<lparr>requested_freq := 200000\<rparr>)) = Some g'
          \<and> requested_within 0 g' \<and> requested_freq (cs_cpu_dbs_info g' 0) = 300000)"
proof -
  let ?p = "sample_policy 200000"
  let ?k = "sample_kernel ?p 4 30000 0"
  let ?g = "sample_gov ((zero_info ?p)\<lparr>requested_freq := 200000\<rparr>)"
  have p: "cur_policy (cs_cpu_dbs_info ?g 0) = ?p" by (simp add: sample_gov_def zero_info_def)
  have rows: "rows_present ?k ?g" by (simp add: rows_present_def sample_defs)
  have tun: "tunables_validated (cur_policy (cs_cpu_dbs_info ?g 0)) (tuners ?g)"
    by (simp add: tunables_validated_def freq_validated_def threshold_invariant_def
        MAX_HOTPLUG_RATE_def sample_defs Let_def)
  have pol: "freq_validated (cur_policy (cs_cpu_dbs_info ?g 0)) (cur (cur_policy (cs_cpu_dbs_info ?g 0)))"
    by (simp add: p) (simp add: freq_validated_def sample_policy_def)
  have req: "requested_within 0 ?g"
    by (simp add: requested_within_def p) (simp add: freq_validated_def sample_defs)
  have lo: "freq_lo (cs_cpu_dbs_info ?g 0) \<le> pol_max (cur_policy (cs_cpu_dbs_info ?g 0))"
    by (simp add: sample_defs)
  have tab: "lookup_within (cur_policy (cs_cpu_dbs_info ?g 0)) (table_target ?k)"
    by (simp only: p sample_lookup_within)
  have v: "map_option (\<lambda>g'. requested_freq (cs_cpu_dbs_info g' 0)) (dbs_check_cpu ?k 0 ?g)
      = Some 300000"
    by (simp add: tick_defs sample_defs Let_def)
  from tick_keeps_within [OF rows tun pol req lo tab] obtain g' where
    "dbs_check_cpu ?k 0 ?g = Some g'" "requested_within 0 g'" by blast
  with v rows req show ?thesis by auto
qed

subsection \<open>Runs of ticks\<close>

lemma freq_logic_tables:
  assumes "freq_logic k c p boosted active m g = Some g'"
  shows "hotplug_freq g' = hotplug_freq g \<and> hotplug_rq g' = hotplug_rq g"
proof (cases "input_boost c p boosted g")
  case (Inl a)
  then have "hotplug_freq a = hotplug_freq g \<and> hotplug_rq a = hotplug_rq g"
    by (auto simp: input_boost_def cpufreq_driver_target_def upd_this_def Let_def split: if_splits)
  with assms Inl show ?thesis by (simp add: freq_logic_def)
next
  case (Inr lim)
  have inc: "\<And>h s. hotplug_freq (freq_increase k c p h s g) = hotplug_freq g
     \<and> hotplug_rq (freq_increase k c p h s g) = hotplug_rq g"
    by (simp add: freq_increase_def cpufreq_driver_target_def upd_this_def Let_def)
  let ?sa = "snd (standby_activation c p boosted active g)"
  have sa: "hotplug_freq ?sa = hotplug_freq g \<and> hotplug_rq ?sa = hotplug_rq g"
    by (simp add: standby_activation_def cpufreq_driver_target_def upd_this_def Let_def)
  have dec: "\<And>g0 g1. freq_decrease k c p boosted active m g0 = Some g1 \<Longrightarrow>
     hotplug_freq g1 = hotplug_freq g0 \<and> hotplug_rq g1 = hotplug_rq g0"
    by (auto simp: freq_decrease_def cpufreq_driver_target_def upd_this_def Let_def split: if_splits)
  from assms Inr show ?thesis
    using inc sa dec [of ?sa g']
    by (auto simp: freq_logic_def clamp_hard_def cpufreq_driver_target_def upd_this_def Let_def split: if_splits)
qed

lemma hotplug_check_tables:
  assumes "hotplug_check k c g = Some g'"
  shows "hotplug_freq g' = hotplug_freq g \<and> hotplug_rq g' = hotplug_rq g"
proof -
  from assms obtain up g1 where u: "check_up k g = Some (up, g1)"
    by (auto simp: hotplug_check_def Let_def split: option.splits)
  from check_up_frame [OF u] have f1: "hotplug_freq g1 = hotplug_freq g \<and> hotplug_rq g1 = hotplug_rq g"
    by auto
  show ?thesis
  proof (cases up)
    case True
    with assms u f1 show ?thesis
      by (auto simp: hotplug_check_def queue_work_on_def Let_def split: if_splits)
  next
    case False
    with assms u obtain down g2 where d: "check_down k g1 = Some (down, g2)"
      by (auto simp: hotplug_check_def Let_def split: option.splits)
    from check_down_frame [OF d] f1 have "hotplug_freq g2 = hotplug_freq g \<and> hotplug_rq g2 = hotplug_rq g"
      by auto
    with assms u d False show ?thesis
      by (auto simp: hotplug_check_def queue_work_on_def Let_def split: if_splits)
  qed
qed

lemma dbs_check_cpu_tables:
  assumes "dbs_check_cpu k c g = Some g'"
  shows "hotplug_freq g' = hotplug_freq g \<and> hotplug_rq g' = hotplug_rq g"
proof -
  let ?p = "cur_policy (cs_cpu_dbs_info g c)"
  let ?pushed = "history_push ?p g"
  let ?loaded = "load_loop k c (fst ?pushed) ?p (is_active g) (is_boosted (ktime_us k) g) (snd ?pushed)"
  from assms obtain g3 where h: "hotplug_check k c (fst ?loaded) = Some g3"
    and f: "freq_logic k c ?p (is_boosted (ktime_us k) g) (is_active g) (snd ?loaded) g3 = Some g'"
    by (auto simp: dbs_check_cpu_def Let_def split: option.splits)
  have "hotplug_freq (fst ?loaded) = hotplug_freq g" "hotplug_rq (fst ?loaded) = hotplug_rq g"
    by (simp_all add: load_loop_frame history_push_frame)
  with hotplug_check_tables [OF h] freq_logic_tables [OF f] show ?thesis by simp
qed

lemma recalculate_freq_limits_cur:
  "recalculate_freq_limits n (p\<lparr>cur := f\<rparr>) t = recalculate_freq_limits n p t"
proof -
  have a: "pol_max (p\<lparr>cur := f\<rparr>) = pol_max p" "pol_min (p\<lparr>cur := f\<rparr>) = pol_min p"
    by simp_all
  show ?thesis unfolding recalculate_freq_limits_def a ..
qed

lemma validated_cur:
  "tunables_validated (p\<lparr>cur := f\<rparr>) t = tunables_validated p t"
  "lookup_within (p\<lparr>cur := f\<rparr>) tt = lookup_within p tt"
  "freq_validated (p\<lparr>cur := f\<rparr>) x = freq_validated p x"
  by (simp_all add: tunables_validated_def lookup_within_def freq_validated_def
      recalculate_freq_limits_cur)

text \<open>
  Any run of ticks returns and ends with the requested frequency within the limits of
  the policy, whatever the loads and the other readings of the kernel at each tick
  and whatever frequency within the limits each tick finds in \<^verbatim>\<open>policy->cur\<close>.
\<close>

lemma ticks_keep_within:
  assumes len: "length (hotplug_freq g) = 4" "length (hotplug_rq g) = 4"
    and tun: "tunables_validated (cur_policy (cs_cpu_dbs_info g c)) (tuners g)"
    and req: "requested_within c g"
    and lo: "freq_lo (cs_cpu_dbs_info g c) \<le> pol_max (cur_policy (cs_cpu_dbs_info g c))"
    and steps: "\<forall>(f, k) \<in> set steps.
         freq_validated (cur_policy (cs_cpu_dbs_info g c)) f
         \<and> 0 < num_online_cpus k \<and> num_online_cpus k \<le> 4
         \<and> lookup_within (cur_policy (cs_cpu_dbs_info g c)) (table_target k)"
  shows "\<exists>g'. run_ticks c steps g = Some g' \<and> requested_within c g'"
  using assms
proof (induction steps arbitrary: g)
  case Nil
  then show ?case by simp
next
  case (Cons s steps)
  obtain f k where s: "s = (f, k)" by (cases s)
  let ?p = "cur_policy (cs_cpu_dbs_info g c)"
  let ?g = "set_cur c f g"
  have p: "cur_policy (cs_cpu_dbs_info ?g c) = ?p\<lparr>cur := f\<rparr>"
    and same: "tuners ?g = tuners g" "hotplug_freq ?g = hotplug_freq g"
      "hotplug_rq ?g = hotplug_rq g"
      "requested_freq (cs_cpu_dbs_info ?g c) = requested_freq (cs_cpu_dbs_info g c)"
      "freq_lo (cs_cpu_dbs_info ?g c) = freq_lo (cs_cpu_dbs_info g c)"
    by (simp_all add: set_cur_def upd_this_def)
  from Cons.prems(6) s have here: "freq_validated ?p f" "0 < num_online_cpus k"
      "num_online_cpus k \<le> 4" "lookup_within ?p (table_target k)" by simp_all
  have rows: "rows_present k ?g" using Cons.prems(1,2) here by (simp add: rows_present_def same)
  have tun: "tunables_validated (cur_policy (cs_cpu_dbs_info ?g c)) (tuners ?g)"
    using Cons.prems(3) by (simp add: p same validated_cur)
  have pol: "freq_validated (cur_policy (cs_cpu_dbs_info ?g c)) (cur (cur_policy (cs_cpu_dbs_info ?g c)))"
    using here(1) by (simp add: p validated_cur)
  have req: "requested_within c ?g"
    using Cons.prems(4) by (simp add: requested_within_def p same validated_cur)
  have lo: "freq_lo (cs_cpu_dbs_info ?g c) \<le> pol_max (cur_policy (cs_cpu_dbs_info ?g c))"
    using Cons.prems(5) by (simp add: p same)
  have tab: "lookup_within (cur_policy (cs_cpu_dbs_info ?g c)) (table_target k)"
    using here(4) by (simp add: p validated_cur)
  from tick_keeps_within [OF rows tun pol req lo tab] obtain g1 where
    run: "dbs_check_cpu k c ?g = Some g1" and r1: "requested_within c g1"
    and p1: "cur_policy (cs_cpu_dbs_info g1 c) = ?p\<lparr>cur := f\<rparr>"
    and l1: "freq_lo (cs_cpu_dbs_info g1 c) = freq_lo (cs_cpu_dbs_info g c)"
    and t1: "tuners g1 = tuners g"
    by (auto simp: p same)
  from dbs_check_cpu_tables [OF run] have len1: "length (hotplug_freq g1) = 4"
    "length (hotplug_rq g1) = 4" using Cons.prems(1,2) by (simp_all add: same)
  have tun1: "tunables_validated (cur_policy (cs_cpu_dbs_info g1 c)) (tuners g1)"
    using Cons.prems(3) by (simp add: p1 t1 validated_cur)
  have lo1: "freq_lo (cs_cpu_dbs_info g1 c) \<le> pol_max (cur_policy (cs_cpu_dbs_info g1 c))"
    using Cons.prems(5) by (simp add: p1 l1)
  have steps1: "\<forall>(f, k) \<in> set steps.
         freq_validated (cur_policy (cs_cpu_dbs_info g1 c)) f
         \<and> 0 < num_online_cpus k \<and> num_online_cpus k \<le> 4
         \<and> lookup_within (cur_policy (cs_cpu_dbs_info g1 c)) (table_target k)"
    using Cons.prems(6) by (auto simp: p1 validated_cur)
  from Cons.IH [OF len1 tun1 r1 lo1 steps1] obtain g' where
    "run_ticks c steps g1 = Some g'" "requested_within c g'" by blast
  with run s show ?case by simp
qed

subsection \<open>The transition notifier\<close>

text \<open>
  The transition notifier keeps the invariant of the tick: a requested frequency
  within the limits stays as it is, one outside them is replaced by the new
  frequency, and \<^verbatim>\<open>freq_lo\<close> ends at most at \<^verbatim>\<open>policy.max\<close>.
\<close>

lemma notifier_keeps_within:
  assumes run: "dbs_cpufreq_notifier tt cpu new g = Some (r, g')"
    and en: "enable (cs_cpu_dbs_info g cpu)"
    and tab: "lookup_within (cur_policy (cs_cpu_dbs_info g cpu)) tt"
    and new: "freq_validated (cur_policy (cs_cpu_dbs_info g cpu)) new"
  shows "requested_within cpu g'
     \<and> freq_lo (cs_cpu_dbs_info g' cpu) \<le> pol_max (cur_policy (cs_cpu_dbs_info g' cpu))
     \<and> cur_policy (cs_cpu_dbs_info g' cpu) = cur_policy (cs_cpu_dbs_info g cpu)
     \<and> (requested_within cpu g \<longrightarrow>
           requested_freq (cs_cpu_dbs_info g' cpu) = requested_freq (cs_cpu_dbs_info g cpu))"
proof -
  let ?info = "cs_cpu_dbs_info g cpu"
  let ?p = "cur_policy ?info"
  from tab have t: "tt CPUFREQ_RELATION_H (new - 1) \<le> pol_max ?p"
    by (simp add: lookup_within_def freq_validated_def)
  from new have mm: "pol_min ?p \<le> pol_max ?p" by (auto simp: freq_validated_def)
  have rd: "\<And>i i'. recalculate_down_threshold (tuners g) i = Some i' \<Longrightarrow>
      cur_policy i' = cur_policy i \<and> freq_lo i' = freq_lo i
      \<and> requested_freq i' = requested_freq i"
    by (auto simp: recalculate_down_threshold_def Let_def split: if_splits)
  show ?thesis
  proof (cases "new > pol_min ?p")
    case True
    let ?info1 = "if requested_freq ?info > pol_max ?p \<or> requested_freq ?info < pol_min ?p
                    then ?info\<lparr>requested_freq := new\<rparr> else ?info"
    from run en True obtain this2 where
      r2: "recalculate_down_threshold (tuners g) (?info1\<lparr>freq_lo := tt CPUFREQ_RELATION_H (new - 1)\<rparr>)
            = Some this2"
      and g': "g' = g\<lparr>cs_cpu_dbs_info := (cs_cpu_dbs_info g)(cpu := this2)\<rparr>"
      by (auto simp: dbs_cpufreq_notifier_def Let_def split: option.splits if_splits)
    from rd [OF r2] have f: "cur_policy this2 = ?p"
      "freq_lo this2 = tt CPUFREQ_RELATION_H (new - 1)"
      "requested_freq this2 = requested_freq ?info1"
      by (simp_all split: if_splits)
    show ?thesis
      using new t by (auto simp: g' f requested_within_def freq_validated_def)
  next
    case False
    with run en have g': "g' = g\<lparr>cs_cpu_dbs_info := (cs_cpu_dbs_info g)(cpu :=
        (if requested_freq ?info > pol_max ?p \<or> requested_freq ?info < pol_min ?p
         then ?info\<lparr>requested_freq := new\<rparr> else ?info)\<lparr>freq_lo := pol_min ?p\<rparr>)\<rparr>"
      by (auto simp: dbs_cpufreq_notifier_def Let_def split: if_splits)
    show ?thesis
      using new mm by (auto simp: g' requested_within_def freq_validated_def)
  qed
qed

section \<open>The hard ceiling\<close>

text \<open>
  C2 fails on the source.  The sample platform in Active mode with the default
  tunables (\<^verbatim>\<open>max_non_oc_freq\<close> 900 MHz, \<^verbatim>\<open>oc_freq_boost_ms\<close> 2000) and the overclock
  credit used up: the tunables are validated for the policy, the requested frequency
  is within the limits, and the hard ceiling of the tick is 900 MHz.  The hardware runs at
  900 MHz while \<^verbatim>\<open>requested_freq\<close> is 800 MHz (a transition the notifier does not copy
  into \<^verbatim>\<open>requested_freq\<close>, since that is within the limits), one delayed increase is
  already counted, and the load is 100 percent.  The requested frequency passes the
  check against the ceiling, the increase step looks up the next table entry above
  \<^verbatim>\<open>policy->cur\<close>, clamps it to \<^verbatim>\<open>policy->max\<close> only, and the tick ends with
  1 GHz requested and handed to the driver, above the ceiling.
\<close>

theorem increase_step_exceeds_hard_ceiling:
  "requested_within 0
      (sample_gov ((zero_info (sample_policy 900000))
         \<lparr>requested_freq := 800000, sampling_up_counter := 1\<rparr>))
   \<and> tunables_validated (sample_policy 900000)
      (tuners (sample_gov ((zero_info (sample_policy 900000))
         \<lparr>requested_freq := 800000, sampling_up_counter := 1\<rparr>)))
   \<and> hard_ceiling 0 (sample_policy 900000) False True
      (sample_gov ((zero_info (sample_policy 900000))
         \<lparr>requested_freq := 800000, sampling_up_counter := 1\<rparr>)) = Some 900000
   \<and> map_option (\<lambda>g'. (requested_freq (cs_cpu_dbs_info g' 0), driver_target g'))
      (dbs_check_cpu (sample_kernel (sample_policy 900000) 4 30000 0) 0
         (sample_gov ((zero_info (sample_policy 900000))
            \<lparr>requested_freq := 800000, sampling_up_counter := 1\<rparr>)))
      = Some (1000000, [(1000000, CPUFREQ_RELATION_H)])"
proof -
  let ?g = "sample_gov ((zero_info (sample_policy 900000))
         \<lparr>requested_freq := 800000, sampling_up_counter := 1\<rparr>)"
  have "requested_within 0 ?g"
    by (simp add: requested_within_def freq_validated_def sample_defs)
  moreover have "tunables_validated (sample_policy 900000) (tuners ?g)"
    by (simp add: tunables_validated_def freq_validated_def threshold_invariant_def
        MAX_HOTPLUG_RATE_def sample_defs Let_def)
  moreover have "hard_ceiling 0 (sample_policy 900000) False True ?g = Some 900000"
    by (simp add: hard_ceiling_def tick_defs sample_defs Let_def)
  moreover have "map_option (\<lambda>g'. (requested_freq (cs_cpu_dbs_info g' 0), driver_target g'))
      (dbs_check_cpu (sample_kernel (sample_policy 900000) 4 30000 0) 0 ?g)
      = Some (1000000, [(1000000, CPUFREQ_RELATION_H)])"
    by (simp add: tick_defs sample_defs Let_def)
  ultimately show ?thesis by blast
qed

section \<open>Entry into Standby\<close>

lemma dbs_check_cpu_parts:
  "dbs_check_cpu k c g =
    (case hotplug_check k c (before_hotplug k c g) of
       None \<Rightarrow> None
     | Some g3 \<Rightarrow> freq_logic k c (cur_policy (cs_cpu_dbs_info g c)) (is_boosted (ktime_us k) g)
                    (is_active g) (tick_max_load k c g) g3)"
  by (simp add: dbs_check_cpu_def before_hotplug_def tick_max_load_def Let_def
      split: option.splits)

lemma freq_logic_standby:
  assumes run: "freq_logic k c p boosted active m g = Some g'"
  shows "standby_counter (cs_cpu_dbs_info g' c) =
       (case freq_path c p boosted active m g of
          Increase \<Rightarrow> 0
        | Below_up_threshold \<Rightarrow>
            (if standby_qualifying p boosted active g then standby_counter (cs_cpu_dbs_info g c) + 1
             else standby_counter (cs_cpu_dbs_info g c))
        | _ \<Rightarrow> standby_counter (cs_cpu_dbs_info g c))
     \<and> (standby g' \<longleftrightarrow> standby g \<or>
           (freq_path c p boosted active m g = Below_up_threshold
            \<and> standby_qualifying p boosted active g
            \<and> standby_counter (cs_cpu_dbs_info g c) + 1 \<ge> standby_delay_factor (tuners g)))
     \<and> delay g' =
         (if freq_path c p boosted active m g = Below_up_threshold
             \<and> standby_qualifying p boosted active g
          then standby_sampling_rate (tuners g) else delay g)
     \<and> (if freq_path c p boosted active m g = Below_up_threshold
            \<and> standby_qualifying p boosted active g
            \<and> standby_counter (cs_cpu_dbs_info g c) + 1 \<ge> standby_delay_factor (tuners g)
         then oc_boost_cycles (cs_cpu_dbs_info g' c) = 0 else True)"
proof (cases "input_boost c p boosted g")
  case (Inl a)
  then have "standby_counter (cs_cpu_dbs_info a c) = standby_counter (cs_cpu_dbs_info g c)
      \<and> standby a = standby g \<and> delay a = delay g"
    by (auto simp: input_boost_def Let_def split: if_splits)
  with run Inl show ?thesis by (simp add: freq_logic_def freq_path_def)
next
  case (Inr lim)
  let ?hard = "clamp_hard p (fst (turbo_limits c active g lim))"
  let ?soft = "snd (turbo_limits c active g lim)"
  show ?thesis
  proof (cases "requested_freq (cs_cpu_dbs_info g c) > ?hard")
    case True
    with run Inr show ?thesis by (auto simp: freq_logic_def freq_path_def Let_def)
  next
    case False
    show ?thesis
    proof (cases "m > (if active then up_threshold (tuners g) else 99)")
      case True
      with run Inr False have g': "g' = freq_increase k c p ?hard ?soft g"
        by (auto simp: freq_logic_def Let_def)
      show ?thesis
        using Inr False True
        by (simp add: g' freq_path_def freq_increase_def Let_def)
    next
      case low: False
      let ?sa = "standby_activation c p boosted active g"
      have path: "freq_path c p boosted active m g = Below_up_threshold"
        using Inr False low by (simp add: freq_path_def Let_def)
      have sa: "standby_counter (cs_cpu_dbs_info (snd ?sa) c) =
            (if standby_qualifying p boosted active g then standby_counter (cs_cpu_dbs_info g c) + 1
             else standby_counter (cs_cpu_dbs_info g c))"
        "standby (snd ?sa) \<longleftrightarrow> standby g \<or> (standby_qualifying p boosted active g
            \<and> standby_counter (cs_cpu_dbs_info g c) + 1 \<ge> standby_delay_factor (tuners g))"
        "delay (snd ?sa) = (if standby_qualifying p boosted active g
            then standby_sampling_rate (tuners g) else delay g)"
        "if standby_qualifying p boosted active g
            \<and> standby_counter (cs_cpu_dbs_info g c) + 1 \<ge> standby_delay_factor (tuners g)
         then oc_boost_cycles (cs_cpu_dbs_info (snd ?sa) c) = 0 else True"
        by (auto simp: standby_activation_def standby_qualifying_def Let_def)
      have dec: "\<And>g0 g1. freq_decrease k c p boosted active m g0 = Some g1 \<Longrightarrow>
          standby_counter (cs_cpu_dbs_info g1 c) = standby_counter (cs_cpu_dbs_info g0 c)
          \<and> standby g1 = standby g0 \<and> delay g1 = delay g0
          \<and> oc_boost_cycles (cs_cpu_dbs_info g1 c) = oc_boost_cycles (cs_cpu_dbs_info g0 c)"
        by (auto simp: freq_decrease_def Let_def split: if_splits)
      from run Inr False low have "(fst ?sa \<and> g' = snd ?sa)
          \<or> freq_decrease k c p boosted active m (snd ?sa) = Some g'"
        by (auto simp: freq_logic_def Let_def split: if_splits)
      then have "standby_counter (cs_cpu_dbs_info g' c) = standby_counter (cs_cpu_dbs_info (snd ?sa) c)
          \<and> standby g' = standby (snd ?sa) \<and> delay g' = delay (snd ?sa)
          \<and> oc_boost_cycles (cs_cpu_dbs_info g' c) = oc_boost_cycles (cs_cpu_dbs_info (snd ?sa) c)"
        using dec [of "snd ?sa" g'] by auto
      with sa path show ?thesis by simp
    qed
  qed
qed

text \<open>
  C4, as stated: a single disqualifying tick resets the standby counter to 0, so
  Standby is entered exactly after \<^verbatim>\<open>standby_delay_factor\<close> consecutive qualifying
  ticks, and the sampling period switches on the transition.  On the sample platform
  with \<^verbatim>\<open>standby_delay_factor\<close> = 3 and two qualifying ticks counted: a disqualifying
  tick (800 MHz, above the standby threshold of 300 MHz, half load) leaves the counter
  at 2; with the counter at 2 a single qualifying tick (idle at 200 MHz) enters
  Standby; and with the counter at 0 the first qualifying tick already sets \<^verbatim>\<open>delay\<close>
  to the standby rate (4 jiffies instead of 6) without entering Standby.
\<close>

theorem standby_counter_survives_disqualifying_tick:
  "map_option (\<lambda>g'. (standby_counter (cs_cpu_dbs_info g' 0), standby g'))
     (dbs_check_cpu (sample_kernel (sample_policy 800000) 4 30000 15000) 0
        ((sample_gov ((zero_info (sample_policy 800000))
             \<lparr>requested_freq := 800000, standby_counter := 2\<rparr>))
          \<lparr>tuners := (recalculate_freq_limits 4 (sample_policy 800000) (dbs_tuners_ins 200))
                       \<lparr>standby_delay_factor := 3\<rparr>\<rparr>))
     = Some (2, False)
   \<and> map_option (\<lambda>g'. (standby_counter (cs_cpu_dbs_info g' 0), standby g'))
     (dbs_check_cpu (sample_kernel (sample_policy 200000) 4 30000 30000) 0
        ((sample_gov ((zero_info (sample_policy 200000))
             \<lparr>requested_freq := 200000, standby_counter := 2\<rparr>))
          \<lparr>tuners := (recalculate_freq_limits 4 (sample_policy 200000) (dbs_tuners_ins 200))
                       \<lparr>standby_delay_factor := 3\<rparr>\<rparr>))
     = Some (3, True)
   \<and> map_option (\<lambda>g'. (standby_counter (cs_cpu_dbs_info g' 0), standby g', delay g'))
     (dbs_check_cpu (sample_kernel (sample_policy 200000) 4 30000 30000) 0
        ((sample_gov ((zero_info (sample_policy 200000))\<lparr>requested_freq := 200000\<rparr>))
          \<lparr>tuners := (recalculate_freq_limits 4 (sample_policy 200000) (dbs_tuners_ins 200))
                       \<lparr>standby_delay_factor := 3\<rparr>\<rparr>))
     = Some (1, False, 4)"
proof -
  have "\<not> (3 :: u32) \<le> 1" by (simp add: word_le_nat_alt)
  then show ?thesis by (simp add: tick_defs sample_defs Let_def)
qed

text \<open>
  C4, amended: a tick qualifies when it reaches the standby check (no input-boost or
  hard-limit return, load not above the up threshold) with the current frequency at
  most the standby-entry threshold, in Active mode, not boosted.  Every qualifying
  tick increments the standby counter and sets the sampling period to the standby
  rate; Standby is entered on a qualifying tick exactly when the incremented counter
  has reached \<^verbatim>\<open>standby_delay_factor\<close>, and then the overclock credit is cleared.  The
  counter is reset to 0 only by a tick that takes the frequency-increase path below
  the soft ceiling; every other tick leaves the counter as it is.
\<close>

theorem standby_entry_by_counter:
  assumes "dbs_check_cpu k c g = Some g'"
  shows "\<exists>g3. hotplug_check k c (before_hotplug k c g) = Some g3
     \<and> standby_counter (cs_cpu_dbs_info g3 c) = standby_counter (cs_cpu_dbs_info g c)
     \<and> tuners g3 = tuners g \<and> standby g3 = standby g \<and> delay g3 = delay g
     \<and> (let p = cur_policy (cs_cpu_dbs_info g c);
             boosted = is_boosted (ktime_us k) g;
             active = is_active g;
             way = freq_path c p boosted active (tick_max_load k c g) g3;
             qualifying = (way = Below_up_threshold \<and> standby_qualifying p boosted active g);
             entering = (qualifying
                \<and> standby_counter (cs_cpu_dbs_info g c) + 1 \<ge> standby_delay_factor (tuners g))
         in standby_counter (cs_cpu_dbs_info g' c) =
              (if qualifying then standby_counter (cs_cpu_dbs_info g c) + 1
               else if way = Increase then 0
               else standby_counter (cs_cpu_dbs_info g c))
            \<and> (standby g' \<longleftrightarrow> standby g \<or> entering)
            \<and> delay g' = (if qualifying then standby_sampling_rate (tuners g) else delay g)
            \<and> (if entering then oc_boost_cycles (cs_cpu_dbs_info g' c) = 0 else True))"
proof -
  let ?p = "cur_policy (cs_cpu_dbs_info g c)"
  let ?b = "is_boosted (ktime_us k) g"
  let ?a = "is_active g"
  let ?m = "tick_max_load k c g"
  from assms obtain g3 where h: "hotplug_check k c (before_hotplug k c g) = Some g3"
    and f: "freq_logic k c ?p ?b ?a ?m g3 = Some g'"
    by (auto simp: dbs_check_cpu_parts split: option.splits)
  have d: "decision_fields (cs_cpu_dbs_info (before_hotplug k c g) c) = decision_fields (cs_cpu_dbs_info g c)"
    by (simp add: before_hotplug_def Let_def load_loop_decision history_push_frame)
  have dl: "delay (before_hotplug k c g) = delay g"
    by (simp add: before_hotplug_def Let_def load_loop_delay tick_delay_frame)
  from hotplug_check_frame [OF h] d dl
  have same: "standby_counter (cs_cpu_dbs_info g3 c) = standby_counter (cs_cpu_dbs_info g c)"
    "tuners g3 = tuners g" "standby g3 = standby g" "delay g3 = delay g"
    by (simp_all add: decision_fields_def before_hotplug_frame)
  have q: "standby_qualifying ?p ?b ?a g3 = standby_qualifying ?p ?b ?a g"
    by (simp add: standby_qualifying_def same)
  from freq_logic_standby [OF f] h same q show ?thesis
    by (cases "freq_path c ?p ?b ?a ?m g3") (simp_all add: Let_def)
qed

text \<open>
  On the sample platform with the default \<^verbatim>\<open>standby_delay_factor\<close> of 1, an idle tick
  at 200 MHz in Active mode with some overclock credit left is qualifying: the
  counter goes from 0 to 1, Standby is entered, the credit is cleared and \<^verbatim>\<open>delay\<close>
  becomes the standby rate.
\<close>

theorem standby_entry_by_counter_witness:
  "\<exists>g'. dbs_check_cpu (sample_kernel (sample_policy 200000) 4 30000 30000) 0
          (sample_gov ((zero_info (sample_policy 200000))
             \<lparr>requested_freq := 200000, oc_boost_cycles := 5000\<rparr>)) = Some g'
      \<and> standby g' \<and> standby_counter (cs_cpu_dbs_info g' 0) = 1
      \<and> oc_boost_cycles (cs_cpu_dbs_info g' 0) = 0 \<and> delay g' = 4"
proof -
  let ?p = "sample_policy 200000"
  let ?k = "sample_kernel ?p 4 30000 30000"
  let ?g = "sample_gov ((zero_info ?p)\<lparr>requested_freq := 200000, oc_boost_cycles := 5000\<rparr>)"
  have "dbs_check_cpu ?k 0 ?g \<noteq> None"
    by (simp add: tick_defs sample_defs Let_def)
  then obtain g' where run: "dbs_check_cpu ?k 0 ?g = Some g'" by blast
  have way: "map_option (freq_path 0 ?p False True (tick_max_load ?k 0 ?g))
      (hotplug_check ?k 0 (before_hotplug ?k 0 ?g)) = Some Below_up_threshold"
    by (simp add: freq_path_def tick_max_load_def before_hotplug_def tick_defs sample_defs Let_def)
  have loc: "cur_policy (cs_cpu_dbs_info ?g 0) = ?p" "is_boosted (ktime_us ?k) ?g = False"
    "is_active ?g = True" "standby_qualifying ?p False True ?g"
    "standby_counter (cs_cpu_dbs_info ?g 0) = 0" "standby_delay_factor (tuners ?g) = 1"
    "standby_sampling_rate (tuners ?g) = 4"
    by (simp_all add: standby_qualifying_def is_boosted_def is_active_def sample_defs)
  from standby_entry_by_counter [OF run] obtain g3 where
    h: "hotplug_check ?k 0 (before_hotplug ?k 0 ?g) = Some g3"
    and r: "let p = cur_policy (cs_cpu_dbs_info ?g 0);
             boosted = is_boosted (ktime_us ?k) ?g;
             active = is_active ?g;
             way = freq_path 0 p boosted active (tick_max_load ?k 0 ?g) g3;
             qualifying = (way = Below_up_threshold \<and> standby_qualifying p boosted active ?g);
             entering = (qualifying
                \<and> standby_counter (cs_cpu_dbs_info ?g 0) + 1 \<ge> standby_delay_factor (tuners ?g))
         in standby_counter (cs_cpu_dbs_info g' 0) =
              (if qualifying then standby_counter (cs_cpu_dbs_info ?g 0) + 1
               else if way = Increase then 0
               else standby_counter (cs_cpu_dbs_info ?g 0))
            \<and> (standby g' \<longleftrightarrow> standby ?g \<or> entering)
            \<and> delay g' = (if qualifying then standby_sampling_rate (tuners ?g) else delay ?g)
            \<and> (if entering then oc_boost_cycles (cs_cpu_dbs_info g' 0) = 0 else True)"
    by blast
  from way h have w: "freq_path 0 ?p False True (tick_max_load ?k 0 ?g) g3 = Below_up_threshold"
    by simp
  have q: "standby_qualifying ?p False True ?g = True" using loc(4) by simp
  from r have "standby g' \<and> standby_counter (cs_cpu_dbs_info g' 0) = 1
      \<and> oc_boost_cycles (cs_cpu_dbs_info g' 0) = 0 \<and> delay g' = 4"
    unfolding loc(1,2,3,5,6,7) Let_def w q by simp
  with run show ?thesis by blast
qed

end
